theory Spec2Isabelle
  imports Main "HOL-Library.Word"
begin

section \<open>Machine integers and outcomes\<close>

text \<open>
  \<^verbatim>\<open>std::size_t\<close>, \<^verbatim>\<open>ssize_t\<close> and \<^verbatim>\<open>off_t\<close> are 64-bit words (the
  \<^verbatim>\<open>static_assert\<close> at the head of \<^verbatim>\<open>util.h\<close> fixes that \<^verbatim>\<open>off_t\<close> and
  \<^verbatim>\<open>ssize_t\<close> agree on the sign of \<^verbatim>\<open>-1\<close>); \<^verbatim>\<open>int\<close> is a 32-bit word.
  Unsigned comparisons are \<open><\<close> and \<open>\<le>\<close> on words, signed ones are \<open><s\<close> and
  \<open>\<le>s\<close>; \<open>+\<close>, \<open>-\<close> and \<open>*\<close> wrap around, \<open>div\<close> is unsigned division.
\<close>

type_synonym size_t = "64 word"
type_synonym ssize_t = "64 word"
type_synonym off_t = "64 word"
type_synonym c_int = "32 word"

text \<open>
  What a call does besides returning: it can return a value, run into undefined
  behaviour (a null or out-of-range access, a division by zero), stop at a failed
  \<^verbatim>\<open>ASSERT\<close>, leave by a C++ exception (\<^verbatim>\<open>std::bad_alloc\<close> or
  \<^verbatim>\<open>std::length_error\<close> from an allocation), or wait: for a mutex that the other thread holds, or on the
  condition variable with a predicate that is false. Memory allocation is taken to
  succeed everywhere but where the count is the caller's: at \<^verbatim>\<open>new T[count]\<close> in
  \<^verbatim>\<open>read_at\<close> and at \<^verbatim>\<open>std::vector<T> storage(capacity)\<close> in the constructor of
  the channel's queue.
\<close>

datatype 'a outcome = Returns 'a | Undefined | AssertFailed | Throws | Blocks

definition obind :: "'a outcome \<Rightarrow> ('a \<Rightarrow> 'b outcome) \<Rightarrow> 'b outcome" where
  "obind m f = (case m of Returns x \<Rightarrow> f x | Undefined \<Rightarrow> Undefined
     | AssertFailed \<Rightarrow> AssertFailed | Throws \<Rightarrow> Throws | Blocks \<Rightarrow> Blocks)"

section \<open>The kernel's side of a file descriptor\<close>

text \<open>
  The system calls are the environment of the program. Each wrapper below takes the
  value the call returned (\<open>res\<close>) as an argument, so a property proved for every
  \<open>res\<close> holds whatever the kernel answers. What the kernel keeps for the descriptor is
  the file offset and the file length; POSIX fixes how a returned value relates to them:
  \<^verbatim>\<open>lseek\<close> returns the resulting offset, \<^verbatim>\<open>read\<close> and \<^verbatim>\<open>write\<close> advance the
  offset by the count they return (\<^verbatim>\<open>write\<close> extends the file when it passes its end),
  \<^verbatim>\<open>ftruncate\<close> sets the length when it returns 0, and a failed call (a negative
  result, or a nonzero one for \<^verbatim>\<open>ftruncate\<close>) changes nothing. The bytes transferred
  are not part of this state.
\<close>

record os_file =
  f_offset :: off_t
  f_length :: off_t

definition sys_lseek :: "off_t \<Rightarrow> os_file \<Rightarrow> os_file" where
  "sys_lseek res k = (if res <s 0 then k else k\<lparr>f_offset := res\<rparr>)"

definition sys_write :: "ssize_t \<Rightarrow> os_file \<Rightarrow> os_file" where
  "sys_write res k =
     (if res <s 0 then k
      else k\<lparr>f_offset := f_offset k + res,
             f_length := max (f_length k) (f_offset k + res)\<rparr>)"

definition sys_read :: "ssize_t \<Rightarrow> os_file \<Rightarrow> os_file" where
  "sys_read res k = (if res <s 0 then k else k\<lparr>f_offset := f_offset k + res\<rparr>)"

definition sys_ftruncate :: "c_int \<Rightarrow> size_t \<Rightarrow> os_file \<Rightarrow> os_file" where
  "sys_ftruncate res new_size k = (if res = 0 then k\<lparr>f_length := new_size\<rparr> else k)"

section \<open>raii\_fd (util.h)\<close>

text \<open>
  The four members of \<^verbatim>\<open>class raii_fd\<close>. The member \<^verbatim>\<open>error\<close> is \<open>fd_error\<close>
  here, since \<^verbatim>\<open>file_based_vector\<close> and \<^verbatim>\<open>volume\<close> have a member of that name too.
\<close>

record raii_fd =
  fd :: c_int
  flags :: c_int
  mode :: c_int
  fd_error :: bool

text \<open>\<^verbatim>\<open>raii_fd() = default\<close>: the default member initialisers.\<close>

definition raii_fd_default :: raii_fd where
  "raii_fd_default = \<lparr>fd = - 1, flags = 0, mode = 0, fd_error = False\<rparr>"

text \<open>
  \<^verbatim>\<open>raii_fd(path, flags, mode)\<close> and \<^verbatim>\<open>raii_fd(dird, path, flags, mode)\<close>:
  \<open>res\<close> is what \<^verbatim>\<open>open\<close> or \<^verbatim>\<open>openat\<close> returned.
\<close>

definition raii_fd_open :: "c_int \<Rightarrow> c_int \<Rightarrow> c_int \<Rightarrow> raii_fd" where
  "raii_fd_open res flags' mode' = \<lparr>fd = res, flags = flags', mode = mode', fd_error = False\<rparr>"

text \<open>
  Move assignment swaps \<^verbatim>\<open>fd\<close>, \<^verbatim>\<open>flags\<close> and \<^verbatim>\<open>mode\<close> and leaves each
  object its own \<^verbatim>\<open>error\<close>; the move constructor assigns to a default-constructed
  object. Both return the object and what is left in the source.
\<close>

definition fd_move_assign :: "raii_fd \<Rightarrow> raii_fd \<Rightarrow> raii_fd \<times> raii_fd" where
  "fd_move_assign this move_from =
     (this\<lparr>fd := fd move_from, flags := flags move_from, mode := mode move_from\<rparr>,
      move_from\<lparr>fd := fd this, flags := flags this, mode := mode this\<rparr>)"

definition fd_move_ctor :: "raii_fd \<Rightarrow> raii_fd \<times> raii_fd" where
  "fd_move_ctor move_from = fd_move_assign raii_fd_default move_from"

definition fd_is_ok :: "raii_fd \<Rightarrow> bool" where
  "fd_is_ok f = (\<not> (fd f <s 0 \<or> fd_error f))"

definition fd_flush :: "c_int \<Rightarrow> raii_fd \<Rightarrow> bool" where
  "fd_flush res f = (res = 0)"

definition fd_resize :: "c_int \<Rightarrow> size_t \<Rightarrow> raii_fd \<Rightarrow> os_file \<Rightarrow> bool \<times> raii_fd \<times> os_file" where
  "fd_resize res new_size f k = (res = 0, f, sys_ftruncate res new_size k)"

definition fd_write :: "ssize_t \<Rightarrow> size_t \<Rightarrow> raii_fd \<Rightarrow> os_file \<Rightarrow> bool \<times> raii_fd \<times> os_file" where
  "fd_write res size' f k =
     (if res <s 0 then (False, f\<lparr>fd_error := True\<rparr>, sys_write res k)
      else if res \<noteq> size' then (False, f\<lparr>fd_error := True\<rparr>, sys_write res k)
      else (True, f, sys_write res k))"

definition fd_read :: "ssize_t \<Rightarrow> size_t \<Rightarrow> raii_fd \<Rightarrow> os_file \<Rightarrow> bool \<times> raii_fd \<times> os_file" where
  "fd_read res size' f k =
     (if res <s 0 then (False, f\<lparr>fd_error := True\<rparr>, sys_read res k)
      else if res \<noteq> size' then (False, f\<lparr>fd_error := True\<rparr>, sys_read res k)
      else (True, f, sys_read res k))"

definition fd_seek :: "ssize_t \<Rightarrow> size_t \<Rightarrow> raii_fd \<Rightarrow> os_file \<Rightarrow> bool \<times> raii_fd \<times> os_file" where
  "fd_seek res where' f k =
     (if res <s 0 then (False, f, sys_lseek res k)
      else (res = where', f, sys_lseek res k))"

text \<open>
  \<^verbatim>\<open>size_then_reset\<close>: \<open>res_end\<close> is what \<^verbatim>\<open>lseek(fd, 0, SEEK_END)\<close> returned,
  \<open>res_set\<close> what \<^verbatim>\<open>lseek(fd, 0, SEEK_SET)\<close> returned.
\<close>

definition size_then_reset ::
  "ssize_t \<Rightarrow> off_t \<Rightarrow> raii_fd \<Rightarrow> os_file \<Rightarrow> size_t option \<times> raii_fd \<times> os_file" where
  "size_then_reset res_end res_set f k =
     (if res_end <s 0 then (None, f\<lparr>fd_error := True\<rparr>, sys_lseek res_end k)
      else if res_set \<noteq> 0 then
        (None, f\<lparr>fd_error := True\<rparr>, sys_lseek res_set (sys_lseek res_end k))
      else (Some res_end, f, sys_lseek res_set (sys_lseek res_end k)))"

section \<open>file\_based\_vector (util.h)\<close>

text \<open>
  The members of \<^verbatim>\<open>file_based_vector<T>\<close>; \<^verbatim>\<open>error\<close> is \<open>vec_error\<close> and
  \<^verbatim>\<open>file\<close> is \<open>vfile\<close> here.
  \<open>elem_size\<close> (\<^verbatim>\<open>sizeof(T)\<close>, at least 1 in C++) is an argument of every
  operation that uses it. The elements themselves (\<^verbatim>\<open>arr\<close>, and the array a read
  returns) are not modelled: a read returns whether its pointer is non-null.
\<close>

record file_based_vector =
  used :: size_t
  capacity :: size_t
  iter :: size_t
  capacity_chunk_size :: size_t
  vfile :: raii_fd
  vec_error :: bool

definition vec_is_ok :: "file_based_vector \<Rightarrow> bool" where
  "vec_is_ok v = (\<not> vec_error v \<and> fd_is_ok (vfile v))"

text \<open>
  \<^verbatim>\<open>reserve_at(at, count)\<close>. \<open>rz\<close> is what \<^verbatim>\<open>ftruncate\<close> returns if it is called.
  \<^verbatim>\<open>ASSERT\<close> is a macro of the repository that is not among the sources: \<open>asserts\<close>
  says whether it is compiled in, and a failed \<^verbatim>\<open>ASSERT\<close> that is compiled in stops the
  program. Dividing by a \<^verbatim>\<open>capacity_chunk_size\<close> of 0 is undefined behaviour.
\<close>

definition reserve_at ::
  "bool \<Rightarrow> size_t \<Rightarrow> c_int \<Rightarrow> size_t \<Rightarrow> size_t \<Rightarrow> file_based_vector \<times> os_file
     \<Rightarrow> (size_t option \<times> file_based_vector \<times> os_file) outcome" where
  "reserve_at asserts elem_size rz at count' vk =
     (case vk of (v, k) \<Rightarrow>
      if vec_error v then Returns (None, v, k)
      else if at + count' < at then Returns (None, v, k)
      else if at > used v then Returns (None, v\<lparr>vec_error := True\<rparr>, k)
      else if at + count' > capacity v then
        (let delta = at + count' - capacity v in
         if capacity_chunk_size v = 0 then Undefined
         else
           (let num_new_items =
                  ((delta + capacity_chunk_size v - 1) div capacity_chunk_size v)
                    * capacity_chunk_size v
            in if asserts \<and> \<not> (num_new_items + capacity v \<ge> at + count') then AssertFailed
               else
                 (let new_cap = capacity v + num_new_items in
                  if new_cap < at + count' then Returns (None, v, k)
                  else
                    (case fd_resize rz (new_cap * elem_size) (vfile v) k of
                       (ok, f', k') \<Rightarrow>
                         if \<not> ok then Returns (None, v\<lparr>vfile := f', vec_error := True\<rparr>, k')
                         else Returns (Some at,
                                v\<lparr>vfile := f', capacity := new_cap,
                                   used := max (used v) (at + count')\<rparr>, k')))))
      else Returns (Some at, v\<lparr>used := max (used v) (at + count')\<rparr>, k))"

definition reserve ::
  "bool \<Rightarrow> size_t \<Rightarrow> c_int \<Rightarrow> size_t \<Rightarrow> file_based_vector \<times> os_file
     \<Rightarrow> (size_t option \<times> file_based_vector \<times> os_file) outcome" where
  "reserve asserts elem_size rz count' vk =
     obind (reserve_at asserts elem_size rz (used (fst vk)) count' vk)
       (\<lambda>(start, v, k).
          if start \<noteq> None then Returns (start, v\<lparr>iter := used v\<rparr>, k)
          else Returns (start, v, k))"

text \<open>
  \<^verbatim>\<open>write_at(start, arr, count)\<close>: \<open>r1\<close>, \<open>r2\<close> and \<open>r3\<close> are what the first
  \<^verbatim>\<open>lseek\<close>, the \<^verbatim>\<open>write\<close> and the second \<^verbatim>\<open>lseek\<close> return.
\<close>

definition write_at ::
  "size_t \<Rightarrow> ssize_t \<times> ssize_t \<times> ssize_t \<Rightarrow> size_t \<Rightarrow> size_t
     \<Rightarrow> file_based_vector \<times> os_file \<Rightarrow> size_t option \<times> file_based_vector \<times> os_file" where
  "write_at elem_size rs start count' vk =
     (case (rs, vk) of ((r1, r2, r3), (v, k)) \<Rightarrow>
      if vec_error v then (None, v, k)
      else if start > used v then (None, v, k)
      else
        (case fd_seek r1 (elem_size * start) (vfile v) k of (ok1, f1, k1) \<Rightarrow>
         if \<not> ok1 then (None, v\<lparr>vfile := f1, vec_error := True\<rparr>, k1)
         else
           (case fd_write r2 (count' * elem_size) f1 k1 of (ok2, f2, k2) \<Rightarrow>
            if \<not> ok2 then (None, v\<lparr>vfile := f2, vec_error := True\<rparr>, k2)
            else
              (case fd_seek r3 (elem_size * iter v) f2 k2 of (ok3, f3, k3) \<Rightarrow>
               if \<not> ok3 then (None, v\<lparr>vfile := f3, vec_error := True\<rparr>, k3)
               else (Some start, v\<lparr>vfile := f3\<rparr>, k3)))))"

text \<open>\<^verbatim>\<open>write(arr, count)\<close>.\<close>

definition write_vec ::
  "bool \<Rightarrow> size_t \<Rightarrow> c_int \<Rightarrow> ssize_t \<times> ssize_t \<times> ssize_t \<Rightarrow> size_t
     \<Rightarrow> file_based_vector \<times> os_file
     \<Rightarrow> (size_t option \<times> file_based_vector \<times> os_file) outcome" where
  "write_vec asserts elem_size rz rs count' vk =
     obind (reserve_at asserts elem_size rz (iter (fst vk)) count' vk)
       (\<lambda>(start, v, k).
          case start of
            None \<Rightarrow> Returns (None, v, k)
          | Some s \<Rightarrow>
              if asserts \<and> s \<noteq> iter v then AssertFailed
              else
                (let old_iter = iter v in
                 case write_at elem_size rs old_iter count' (v\<lparr>iter := iter v + count'\<rparr>, k) of
                   (res, v', k') \<Rightarrow>
                     if res = None then Returns (res, v'\<lparr>iter := old_iter\<rparr>, k')
                     else Returns (res, v', k')))"

text \<open>
  \<^verbatim>\<open>read_at(start, count)\<close>. \<open>alloc_ok\<close> says whether \<^verbatim>\<open>new T[count]\<close> gets its
  memory; when it does not, the call leaves by \<^verbatim>\<open>std::bad_alloc\<close>.
\<close>

definition read_at ::
  "size_t \<Rightarrow> bool \<Rightarrow> ssize_t \<times> ssize_t \<times> ssize_t \<Rightarrow> size_t \<Rightarrow> size_t
     \<Rightarrow> file_based_vector \<times> os_file \<Rightarrow> (bool \<times> file_based_vector \<times> os_file) outcome" where
  "read_at elem_size alloc_ok rs start count' vk =
     (case (rs, vk) of ((r1, r2, r3), (v, k)) \<Rightarrow>
      if vec_error v then Returns (False, v, k)
      else if start + count' > used v then Returns (False, v, k)
      else if \<not> alloc_ok then Throws
      else
        (case fd_seek r1 (elem_size * start) (vfile v) k of (ok1, f1, k1) \<Rightarrow>
         if \<not> ok1 then Returns (False, v\<lparr>vfile := f1, vec_error := True\<rparr>, k1)
         else
           (case fd_read r2 (count' * elem_size) f1 k1 of (ok2, f2, k2) \<Rightarrow>
            if \<not> ok2 then Returns (False, v\<lparr>vfile := f2, vec_error := True\<rparr>, k2)
            else
              (case fd_seek r3 (elem_size * iter v) f2 k2 of (ok3, f3, k3) \<Rightarrow>
               if \<not> ok3 then Returns (False, v\<lparr>vfile := f3, vec_error := True\<rparr>, k3)
               else Returns (True, v\<lparr>vfile := f3\<rparr>, k3)))))"

text \<open>\<^verbatim>\<open>read(count)\<close>, \<^verbatim>\<open>peek(count)\<close> and \<^verbatim>\<open>move_to(start)\<close>.\<close>

definition read_vec ::
  "size_t \<Rightarrow> bool \<Rightarrow> ssize_t \<times> ssize_t \<times> ssize_t \<Rightarrow> size_t
     \<Rightarrow> file_based_vector \<times> os_file \<Rightarrow> (bool \<times> file_based_vector \<times> os_file) outcome" where
  "read_vec elem_size alloc_ok rs count' vk =
     (case vk of (v, k) \<Rightarrow>
      if vec_error v then Returns (False, v, k)
      else
        (let old_iter = iter v in
         obind (read_at elem_size alloc_ok rs old_iter count' (v\<lparr>iter := iter v + count'\<rparr>, k))
           (\<lambda>(result, v', k').
              if \<not> result then Returns (result, v'\<lparr>iter := old_iter\<rparr>, k')
              else Returns (result, v', k'))))"

definition peek ::
  "size_t \<Rightarrow> bool \<Rightarrow> ssize_t \<times> ssize_t \<times> ssize_t \<Rightarrow> size_t
     \<Rightarrow> file_based_vector \<times> os_file \<Rightarrow> (bool \<times> file_based_vector \<times> os_file) outcome" where
  "peek elem_size alloc_ok rs count' vk =
     (if vec_error (fst vk) then Returns (False, fst vk, snd vk)
      else read_at elem_size alloc_ok rs (iter (fst vk)) count' vk)"

definition move_to ::
  "size_t \<Rightarrow> ssize_t \<Rightarrow> size_t \<Rightarrow> file_based_vector \<times> os_file
     \<Rightarrow> bool \<times> file_based_vector \<times> os_file" where
  "move_to elem_size r1 start vk =
     (case vk of (v, k) \<Rightarrow>
      if vec_error v then (False, v, k)
      else if start > used v then (False, v, k)
      else if iter v = start then (True, v, k)
      else
        (case fd_seek r1 (start * elem_size) (vfile v) k of (ok1, f1, k1) \<Rightarrow>
         if \<not> ok1 then (False, v\<lparr>iter := start, vfile := f1, vec_error := True\<rparr>, k1)
         else (True, v\<lparr>iter := start, vfile := f1\<rparr>, k1)))"

definition vec_flush :: "c_int \<Rightarrow> file_based_vector \<Rightarrow> bool" where
  "vec_flush res v = (if vec_error v then False else fd_flush res (vfile v))"

text \<open>
  The constructor \<^verbatim>\<open>file_based_vector(file, used, capacity_chunk_size)\<close>;
  \<open>res_end\<close> and \<open>res_set\<close> are the answers to the two \<^verbatim>\<open>lseek\<close> calls of
  \<^verbatim>\<open>size_then_reset\<close>. The member \<^verbatim>\<open>file\<close> is move-constructed from the
  argument, and \<^verbatim>\<open>error\<close> is initialised from the member.
\<close>

definition vec_open ::
  "size_t \<Rightarrow> ssize_t \<Rightarrow> off_t \<Rightarrow> raii_fd \<Rightarrow> size_t \<Rightarrow> size_t \<Rightarrow> os_file
     \<Rightarrow> file_based_vector \<times> os_file" where
  "vec_open elem_size res_end res_set file' used' chunk k =
     (let file'' = fst (fd_move_ctor file');
          v = \<lparr>used = used', capacity = 0, iter = 0, capacity_chunk_size = chunk,
                vfile = file'', vec_error = \<not> fd_is_ok file''\<rparr>
      in if vec_error v then (v, k)
         else
           (case size_then_reset res_end res_set file'' k of (size', f', k') \<Rightarrow>
            (case size' of
               None \<Rightarrow> (v\<lparr>vfile := f', vec_error := True\<rparr>, k')
             | Some n \<Rightarrow>
                 if used' > n div elem_size
                 then (v\<lparr>capacity := n div elem_size, vfile := f', vec_error := True\<rparr>, k')
                 else (v\<lparr>capacity := n div elem_size, vfile := f'\<rparr>, k'))))"

section \<open>The volume and its sidecar (dedup\_volume.cc)\<close>

text \<open>
  Modelled from the spec: the declarations of \<^verbatim>\<open>record\<close>, \<^verbatim>\<open>write_loc\<close>,
  \<^verbatim>\<open>volume\<close>, \<^verbatim>\<open>volume_config\<close> and of the \<^verbatim>\<open>config::loaded_*\<close> types are in
  headers that are not among the sources. The fields are the ones \<^verbatim>\<open>dedup_volume.cc\<close>
  reads and writes, in the shapes section 4.3 of the specification lists. The integer
  widths are left open: \<open>'i\<close> is the type of the four key fields, \<open>'x\<close> the type of a data
  file index, and \<open>'w\<close> the type of offsets and
  sizes, which the functions below take to be words of one width. \<^verbatim>\<open>record\<close> is
  \<open>record_id\<close>, \<^verbatim>\<open>end\<close> is \<open>loc_end\<close> and \<^verbatim>\<open>size\<close> is \<open>row_size\<close> here; the key
  fields of an unfinished row carry the prefix \<open>row_\<close>.
\<close>

type_synonym byte = "8 word"

record 'i record_id =
  VolSessionId :: 'i
  VolSessionTime :: 'i
  FileIndex :: 'i
  Stream :: 'i

record ('x, 'w) write_loc =
  file_index :: 'x
  current :: 'w
  loc_end :: 'w

record loaded_general_info =
  block_header_size :: size_t
  record_header_size :: size_t
  dedup_block_header_size :: size_t
  dedup_record_header_size :: size_t

record 'w loaded_block_section =
  bs_begin :: 'w
  bs_end :: 'w
  bs_path :: string

record 'w loaded_record_section =
  rs_begin :: 'w
  rs_end :: 'w
  rs_path :: string

record ('x, 'w) loaded_data_section =
  ds_index :: 'x
  ds_blocksize :: 'w
  ds_path :: string
  ds_end :: 'w

record ('i, 'x, 'w) loaded_unfinished_record =
  row_VolSessionId :: 'i
  row_VolSessionTime :: 'i
  row_FileIndex :: 'i
  row_Stream :: 'i
  DataIdx :: 'x
  file_offset :: 'w
  row_size :: 'w

record ('i, 'x, 'w) loaded_config =
  info :: loaded_general_info
  blockfiles :: "'w loaded_block_section list"
  recordfiles :: "'w loaded_record_section list"
  datafiles :: "('x, 'w) loaded_data_section list"
  unfinished :: "('i, 'x, 'w) loaded_unfinished_record list"

text \<open>
  What \<^verbatim>\<open>begin()\<close>, \<^verbatim>\<open>end()\<close>, \<^verbatim>\<open>path()\<close>, \<^verbatim>\<open>index()\<close> and
  \<^verbatim>\<open>blocksize()\<close> return for the files of a \<^verbatim>\<open>volume_config\<close>.
\<close>

record 'w block_file =
  bf_begin :: 'w
  bf_end :: 'w
  bf_path :: string

record 'w record_file =
  rf_begin :: 'w
  rf_end :: 'w
  rf_path :: string

record ('x, 'w) data_file =
  df_index :: 'x
  df_blocksize :: 'w
  df_path :: string
  df_end :: 'w

record ('x, 'w) volume_config =
  cfg_blockfiles :: "'w block_file list"
  cfg_recordfiles :: "'w record_file list"
  cfg_datafiles :: "('x, 'w) data_file list"

text \<open>
  \<^verbatim>\<open>unfinished_records\<close> is an unordered map. It is a list of pairs here, with keys
  that are pairwise different; the order of the list is the order in which a loop
  visits the map, which C++ leaves open. \<^verbatim>\<open>emplace\<close> inserts when the key is not
  there and says whether it did.
\<close>

record ('i, 'x, 'w) volume =
  config :: "('x, 'w) volume_config"
  unfinished_records :: "('i record_id \<times> ('x, 'w) write_loc) list"
  configfile :: raii_fd
  vol_error :: bool

definition emplace :: "'k \<Rightarrow> 'v \<Rightarrow> ('k \<times> 'v) list \<Rightarrow> ('k \<times> 'v) list \<times> bool" where
  "emplace key val m =
     (if key \<in> set (map fst m) then (m, False) else (m @ [(key, val)], True))"

text \<open>
  The body of the last loop of \<^verbatim>\<open>write_current_config\<close>: the row
  \<^verbatim>\<open>emplace_back\<close> builds from an entry of the map.
\<close>

definition unfinished_row ::
  "'i record_id \<times> ('x, 'w::len word) write_loc \<Rightarrow> ('i, 'x, 'w word) loaded_unfinished_record" where
  "unfinished_row e =
     (case e of (record', loc) \<Rightarrow>
      \<lparr>row_VolSessionId = VolSessionId record', row_VolSessionTime = VolSessionTime record',
       row_FileIndex = FileIndex record', row_Stream = Stream record',
       DataIdx = file_index loc, file_offset = current loc,
       row_size = loc_end loc - current loc\<rparr>)"

text \<open>
  The first three loops of \<^verbatim>\<open>write_current_config\<close>: the sections built from
  the files of the volume's config.
\<close>

definition block_sections :: "('x, 'w) volume_config \<Rightarrow> 'w loaded_block_section list" where
  "block_sections c =
     map (\<lambda>blockfile. \<lparr>bs_begin = bf_begin blockfile, bs_end = bf_end blockfile,
                         bs_path = bf_path blockfile\<rparr>) (cfg_blockfiles c)"

definition record_sections :: "('x, 'w) volume_config \<Rightarrow> 'w loaded_record_section list" where
  "record_sections c =
     map (\<lambda>recordfile. \<lparr>rs_begin = rf_begin recordfile, rs_end = rf_end recordfile,
                          rs_path = rf_path recordfile\<rparr>) (cfg_recordfiles c)"

definition data_sections :: "('x, 'w) volume_config \<Rightarrow> ('x, 'w) loaded_data_section list" where
  "data_sections c =
     map (\<lambda>datafile. \<lparr>ds_index = df_index datafile, ds_blocksize = df_blocksize datafile,
                        ds_path = df_path datafile, ds_end = df_end datafile\<rparr>) (cfg_datafiles c)"

text \<open>
  \<^verbatim>\<open>write_current_config\<close>. \<open>to_bytes\<close> is \<^verbatim>\<open>config::to_bytes\<close> and
  \<open>my_general_info\<close> the constant of that name (four \<^verbatim>\<open>sizeof\<close>s), both taken as
  arguments; \<open>r1\<close>, \<open>r2\<close> and \<open>r3\<close> are what \<^verbatim>\<open>ftruncate\<close>, \<^verbatim>\<open>lseek\<close> and
  \<^verbatim>\<open>write\<close> return; \<open>sidecar\<close> is the content of the sidecar file, which the call
  returns updated. \<^verbatim>\<open>bytes.front()\<close> on an empty vector is undefined behaviour.
\<close>

definition write_current_config ::
  "(loaded_general_info \<Rightarrow> ('x, 'w word) loaded_data_section list
      \<Rightarrow> 'w word loaded_record_section list \<Rightarrow> 'w word loaded_block_section list
      \<Rightarrow> ('i, 'x, 'w word) loaded_unfinished_record list \<Rightarrow> byte list)
   \<Rightarrow> loaded_general_info \<Rightarrow> c_int \<times> off_t \<times> ssize_t \<Rightarrow> byte list
   \<Rightarrow> ('i, 'x, 'w::len word) volume \<Rightarrow> (('i, 'x, 'w word) volume \<times> byte list) outcome" where
  "write_current_config to_bytes my_general_info rs sidecar vol =
     (case rs of (r1, r2, r3) \<Rightarrow>
      let blocksections = block_sections (config vol);
          recordsections = record_sections (config vol);
          datasections = data_sections (config vol);
          unfinished' = map unfinished_row (unfinished_records vol);
          bytes = to_bytes my_general_info datasections recordsections blocksections unfinished'
      in if r1 \<noteq> 0 then Returns (vol\<lparr>vol_error := True\<rparr>, sidecar)
         else if r2 \<noteq> 0 then Returns (vol\<lparr>vol_error := True\<rparr>, [])
         else if bytes = [] then Undefined
         else if r3 \<noteq> word_of_nat (length bytes)
           then Returns (vol\<lparr>vol_error := True\<rparr>, if r3 <s 0 then [] else take (unat r3) bytes)
           else Returns (vol, bytes))"

text \<open>
  The body of the loop of \<^verbatim>\<open>load_config\<close>: the key and the \<^verbatim>\<open>write_loc\<close> built
  from a row, and the loop itself, which stops at the first key that does not insert.
\<close>

definition unfinished_entry ::
  "('i, 'x, 'w::len word) loaded_unfinished_record \<Rightarrow> 'i record_id \<times> ('x, 'w word) write_loc" where
  "unfinished_entry rec =
     (\<lparr>VolSessionId = row_VolSessionId rec, VolSessionTime = row_VolSessionTime rec,
       FileIndex = row_FileIndex rec, Stream = row_Stream rec\<rparr>,
      \<lparr>file_index = DataIdx rec, current = file_offset rec,
       loc_end = file_offset rec + row_size rec\<rparr>)"

fun insert_unfinished ::
  "('i, 'x, 'w::len word) loaded_unfinished_record list
     \<Rightarrow> ('i record_id \<times> ('x, 'w word) write_loc) list
     \<Rightarrow> bool \<times> ('i record_id \<times> ('x, 'w word) write_loc) list" where
  "insert_unfinished [] m = (True, m)"
| "insert_unfinished (rec # rest) m =
     (case unfinished_entry rec of (unfinished_record, loc) \<Rightarrow>
      (case emplace unfinished_record loc m of (m', inserted) \<Rightarrow>
       if \<not> inserted then (False, m') else insert_unfinished rest m'))"

text \<open>
  \<^verbatim>\<open>load_config\<close>. \<open>from_bytes\<close> is \<^verbatim>\<open>config::from_bytes\<close>, \<open>sizes\<close> holds the
  four \<^verbatim>\<open>sizeof\<close>s the loaded sizes are compared with, and \<open>volume_config_of\<close> is the
  constructor \<^verbatim>\<open>volume_config(loaded_config&&)\<close>; all three are arguments.
  \<open>config_end\<close> and \<open>config_start\<close> are what the two \<^verbatim>\<open>lseek\<close> calls return, \<open>rd\<close> is
  what \<^verbatim>\<open>read\<close> returns and \<open>buf\<close> the bytes it delivers.
\<close>

definition load_config ::
  "(byte list \<Rightarrow> ('i, 'x, 'w word) loaded_config option) \<Rightarrow> loaded_general_info
   \<Rightarrow> (('i, 'x, 'w word) loaded_config \<Rightarrow> ('x, 'w word) volume_config)
   \<Rightarrow> off_t \<times> off_t \<times> ssize_t \<times> byte list
   \<Rightarrow> ('i, 'x, 'w::len word) volume \<Rightarrow> (bool \<times> ('i, 'x, 'w word) volume) outcome" where
  "load_config from_bytes sizes volume_config_of env vol =
     (case env of (config_end, config_start, rd, buf) \<Rightarrow>
      if config_start \<noteq> 0 \<or> config_end <s config_start then Returns (False, vol)
      else if config_end - config_start = 0 then Undefined
      else if rd \<noteq> config_end - config_start then Returns (False, vol)
      else
        (case from_bytes buf of
           None \<Rightarrow> Returns (False, vol)
         | Some loaded \<Rightarrow>
             if length (blockfiles loaded) \<noteq> 1 then Returns (False, vol)
             else if length (recordfiles loaded) \<noteq> 1 then Returns (False, vol)
             else if block_header_size (info loaded) \<noteq> block_header_size sizes
                     \<or> dedup_block_header_size (info loaded) \<noteq> dedup_block_header_size sizes
               then Returns (False, vol)
             else if record_header_size (info loaded) \<noteq> record_header_size sizes
                     \<or> dedup_record_header_size (info loaded) \<noteq> dedup_record_header_size sizes
               then Returns (False, vol)
             else
               (case insert_unfinished (unfinished loaded) (unfinished_records vol) of
                  (ok, m) \<Rightarrow>
                    if \<not> ok then Returns (False, vol\<lparr>unfinished_records := m\<rparr>)
                    else Returns (True, vol\<lparr>unfinished_records := m,
                                            config := volume_config_of loaded\<rparr>))))"

subsection \<open>Sample data\<close>

text \<open>
  The volume of the specification's sidecar scenario (one block file, one record file,
  one data file, one unfinished record), a volume that has nothing yet, the parsed
  form of a sidecar with given unfinished rows, a parser that gives that form whatever
  the bytes, and a constructor for \<^verbatim>\<open>volume_config\<close> that copies the sections. The results below evaluate the code
  on them.
\<close>

definition sample_sizes :: loaded_general_info where
  "sample_sizes = \<lparr>block_header_size = 24, record_header_size = 12,
     dedup_block_header_size = 40, dedup_record_header_size = 32\<rparr>"

definition sample_volume :: "(32 word, 32 word, 64 word) volume" where
  "sample_volume =
     \<lparr>config = \<lparr>cfg_blockfiles = [\<lparr>bf_begin = 0, bf_end = 1024, bf_path = ''b''\<rparr>],
                cfg_recordfiles = [\<lparr>rf_begin = 0, rf_end = 256, rf_path = ''r''\<rparr>],
                cfg_datafiles = [\<lparr>df_index = 0, df_blocksize = 65536, df_path = ''d'',
                                   df_end = 2000000\<rparr>]\<rparr>,
      unfinished_records =
        [(\<lparr>VolSessionId = 1, VolSessionTime = 1700000000, FileIndex = 42, Stream = 1\<rparr>,
          \<lparr>file_index = 0, current = 1500000, loc_end = 1564000\<rparr>)],
      configfile = \<lparr>fd = 4, flags = 0, mode = 0, fd_error = False\<rparr>,
      vol_error = False\<rparr>"

definition fresh_volume :: "(32 word, 32 word, 64 word) volume" where
  "fresh_volume =
     \<lparr>config = \<lparr>cfg_blockfiles = [], cfg_recordfiles = [], cfg_datafiles = []\<rparr>,
      unfinished_records = [],
      configfile = \<lparr>fd = 4, flags = 0, mode = 0, fd_error = False\<rparr>,
      vol_error = False\<rparr>"

definition sample_row :: "64 word \<Rightarrow> 64 word \<Rightarrow> (32 word, 32 word, 64 word) loaded_unfinished_record" where
  "sample_row off sz =
     \<lparr>row_VolSessionId = 1, row_VolSessionTime = 1700000000, row_FileIndex = 42,
      row_Stream = 1, DataIdx = 0, file_offset = off, row_size = sz\<rparr>"

definition sample_loaded ::
  "(32 word, 32 word, 64 word) loaded_unfinished_record list
     \<Rightarrow> (32 word, 32 word, 64 word) loaded_config" where
  "sample_loaded rows =
     \<lparr>info = sample_sizes,
      blockfiles = [\<lparr>bs_begin = 0, bs_end = 1024, bs_path = ''b''\<rparr>],
      recordfiles = [\<lparr>rs_begin = 0, rs_end = 256, rs_path = ''r''\<rparr>],
      datafiles = [\<lparr>ds_index = 0, ds_blocksize = 65536, ds_path = ''d'', ds_end = 2000000\<rparr>],
      unfinished = rows\<rparr>"

definition sample_from_bytes ::
  "(32 word, 32 word, 64 word) loaded_unfinished_record list \<Rightarrow> byte list
     \<Rightarrow> (32 word, 32 word, 64 word) loaded_config option" where
  "sample_from_bytes rows bytes = Some (sample_loaded rows)"

definition sample_volume_config ::
  "(32 word, 32 word, 64 word) loaded_config \<Rightarrow> (32 word, 64 word) volume_config" where
  "sample_volume_config loaded =
     \<lparr>cfg_blockfiles = map (\<lambda>s. \<lparr>bf_begin = bs_begin s, bf_end = bs_end s, bf_path = bs_path s\<rparr>)
                         (blockfiles loaded),
      cfg_recordfiles = map (\<lambda>s. \<lparr>rf_begin = rs_begin s, rf_end = rs_end s, rf_path = rs_path s\<rparr>)
                         (recordfiles loaded),
      cfg_datafiles = map (\<lambda>s. \<lparr>df_index = ds_index s, df_blocksize = ds_blocksize s,
                                 df_path = ds_path s, df_end = ds_end s\<rparr>) (datafiles loaded)\<rparr>"

section \<open>The channel (channel.h)\<close>

text \<open>
  \<^verbatim>\<open>data<T>\<close>, the queue both ends share. Its members \<^verbatim>\<open>size\<close> and
  \<^verbatim>\<open>capacity\<close> are \<open>d_size\<close> and \<open>d_capacity\<close> here. A call runs from its
  first statement to its last without another call in between. Of the mutex the state
  keeps \<open>mutex_busy\<close>: whether the other thread holds it when the call gets to
  \<^verbatim>\<open>std::unique_lock lock(shared->mutex)\<close>. That constructor waits for the mutex, so
  on a busy mutex the outcome is \<open>Blocks\<close>; otherwise the call holds the lock to its
  end and releases it. The condition variable has no field: \<^verbatim>\<open>notify_one\<close> changes
  nothing, and a \<^verbatim>\<open>cv.wait\<close> whose predicate is false is the outcome \<open>Blocks\<close> too.
\<close>

record 'a data =
  d_size :: size_t
  d_capacity :: size_t
  storage :: "'a list"
  mutex_busy :: bool
  in_alive :: bool
  out_alive :: bool

text \<open>
  A \<^verbatim>\<open>std::shared_ptr<data<T>>\<close> is an address or null, and the heap says what
  lives at an address. The members of \<^verbatim>\<open>out<T>\<close> and \<^verbatim>\<open>in<T>\<close> carry the
  prefixes \<open>o_\<close> and \<open>i_\<close> where the two structs use one name.
\<close>

type_synonym addr = nat
type_synonym 'a heap = "addr \<Rightarrow> 'a data option"

record out_end =
  o_shared :: "addr option"
  read_pos :: size_t
  o_old_size :: size_t
  o_capacity :: size_t
  o_closed :: bool

record in_end =
  i_shared :: "addr option"
  write_pos :: size_t
  i_old_size :: size_t
  i_capacity :: size_t
  i_closed :: bool

text \<open>The default member initialisers (\<^verbatim>\<open>out() = default\<close>, \<^verbatim>\<open>in() = default\<close>).\<close>

definition out_default :: out_end where
  "out_default = \<lparr>o_shared = None, read_pos = 0, o_old_size = 0, o_capacity = 0,
                   o_closed = True\<rparr>"

definition in_default :: in_end where
  "in_default = \<lparr>i_shared = None, write_pos = 0, i_old_size = 0, i_capacity = 0,
                  i_closed = True\<rparr>"

text \<open>
  Move assignment swaps the five members; the move constructor assigns to a
  default-constructed object. Both return the object and what is left in the source.
\<close>

definition out_move_assign :: "out_end \<Rightarrow> out_end \<Rightarrow> out_end \<times> out_end" where
  "out_move_assign this moved = (moved, this)"

definition out_move_ctor :: "out_end \<Rightarrow> out_end \<times> out_end" where
  "out_move_ctor moved = out_move_assign out_default moved"

definition in_move_assign :: "in_end \<Rightarrow> in_end \<Rightarrow> in_end \<times> in_end" where
  "in_move_assign this moved = (moved, this)"

definition in_move_ctor :: "in_end \<Rightarrow> in_end \<times> in_end" where
  "in_move_ctor moved = in_move_assign in_default moved"

definition out_empty :: "out_end \<Rightarrow> bool" where
  "out_empty ep = o_closed ep"

definition wrapping_inc :: "size_t \<Rightarrow> size_t \<Rightarrow> size_t" where
  "wrapping_inc num max' = (let result = num + 1 in if result = max' then 0 else result)"

text \<open>
  \<^verbatim>\<open>std::vector<T> storage(capacity)\<close>, the constructor that makes a vector of
  \<open>n\<close> value-initialised elements; \<open>dflt\<close> is a value-initialised \<^verbatim>\<open>T\<close>. It
  throws \<^verbatim>\<open>std::length_error\<close> when \<open>n\<close> is above the vector's
  \<^verbatim>\<open>max_size()\<close>, a constant of the standard library for \<^verbatim>\<open>T\<close> (at most
  \<open>2\<^sup>6\<^sup>3 - 1\<close> where \<^verbatim>\<open>std::ptrdiff_t\<close> has 64 bits), and \<^verbatim>\<open>std::bad_alloc\<close>
  when the allocator has no memory for \<open>n\<close> elements; \<open>alloc_ok\<close> is the
  allocator's answer.
\<close>

definition vector_ctor :: "nat \<Rightarrow> bool \<Rightarrow> 'a \<Rightarrow> size_t \<Rightarrow> 'a list outcome" where
  "vector_ctor max_size alloc_ok dflt n =
     (if unat n \<le> max_size \<and> alloc_ok then Returns (replicate (unat n) dflt) else Throws)"

text \<open>
  \<^verbatim>\<open>data(capacity)\<close>, whose member initialisers run in the order of the members:
  \<^verbatim>\<open>size\<close>, \<^verbatim>\<open>capacity\<close>, \<^verbatim>\<open>storage\<close>, the mutex and the condition
  variable, and the two flags.
\<close>

definition data_ctor :: "nat \<Rightarrow> bool \<Rightarrow> 'a \<Rightarrow> size_t \<Rightarrow> 'a data outcome" where
  "data_ctor max_size alloc_ok dflt capacity' =
     obind (vector_ctor max_size alloc_ok dflt capacity') (\<lambda>storage'.
       Returns \<lparr>d_size = 0, d_capacity = capacity', storage = storage',
                mutex_busy = False, in_alive = False, out_alive = False\<rparr>)"

text \<open>
  \<^verbatim>\<open>shared->\<close>: undefined behaviour on a null pointer (and on an address where no
  queue lives). \<^verbatim>\<open>storage[pos]\<close> is undefined behaviour outside the vector.
  \<open>take_slot\<close> is \<^verbatim>\<open>std::move(shared->storage[pos])\<close>: it gives the element and
  leaves the slot in the moved-from state \<open>mf x\<close>, where \<open>mf\<close> is whatever the move
  constructor of \<^verbatim>\<open>T\<close> leaves behind. \<open>set_slot\<close> is the assignment to the slot.
\<close>

definition deref :: "addr option \<Rightarrow> 'a heap \<Rightarrow> (addr \<times> 'a data) outcome" where
  "deref sp h =
     (case sp of
        None \<Rightarrow> Undefined
      | Some p \<Rightarrow> (case h p of None \<Rightarrow> Undefined | Some d \<Rightarrow> Returns (p, d)))"

definition take_slot :: "('a \<Rightarrow> 'a) \<Rightarrow> size_t \<Rightarrow> 'a data \<Rightarrow> ('a \<times> 'a data) outcome" where
  "take_slot mf pos d =
     (if unat pos < length (storage d)
      then Returns (storage d ! unat pos,
                    d\<lparr>storage := (storage d)[unat pos := mf (storage d ! unat pos)]\<rparr>)
      else Undefined)"

definition set_slot :: "size_t \<Rightarrow> 'a \<Rightarrow> 'a data \<Rightarrow> 'a data outcome" where
  "set_slot pos val d =
     (if unat pos < length (storage d)
      then Returns (d\<lparr>storage := (storage d)[unat pos := val]\<rparr>)
      else Undefined)"

subsection \<open>The consumer\<close>

text \<open>\<^verbatim>\<open>out<T>::get\<close>.\<close>

definition out_get ::
  "('a \<Rightarrow> 'a) \<Rightarrow> out_end \<Rightarrow> 'a heap \<Rightarrow> ('a option \<times> out_end \<times> 'a heap) outcome" where
  "out_get mf ep h =
     (if \<not> o_closed ep then
        obind (deref (o_shared ep) h) (\<lambda>(p, d).
        obind (if o_old_size ep > 0
               then obind (take_slot mf (read_pos ep) d) (\<lambda>(x, d'). Returns (Some x, d'))
               else Returns (None, d)) (\<lambda>(result, d1).
          if mutex_busy d1 then Blocks
          else if \<not> (d_size d1 > 0 \<or> \<not> in_alive d1) then Blocks
          else if d_size d1 > 0 then
            obind (if result = None
                   then obind (take_slot mf (read_pos ep) d1) (\<lambda>(x, d'). Returns (Some x, d'))
                   else Returns (result, d1)) (\<lambda>(result', d2).
              Returns (result',
                ep\<lparr>o_old_size := d_size d2 - 1,
                   read_pos := wrapping_inc (read_pos ep) (o_capacity ep)\<rparr>,
                h(p \<mapsto> d2\<lparr>d_size := d_size d2 - 1\<rparr>)))
          else Returns (result, ep\<lparr>o_old_size := 0, o_closed := True\<rparr>,
                        h(p \<mapsto> d1\<lparr>out_alive := False\<rparr>))))
      else Returns (None, ep, h))"

text \<open>
  The loop of \<^verbatim>\<open>get_all\<close> and \<^verbatim>\<open>try_get_all\<close>: \<open>n\<close> is the number of rounds
  left, \<open>v\<close> the vector filled so far.
\<close>

fun drain ::
  "('a \<Rightarrow> 'a) \<Rightarrow> nat \<Rightarrow> size_t \<Rightarrow> size_t \<Rightarrow> 'a data \<Rightarrow> 'a list
     \<Rightarrow> ('a list \<times> size_t \<times> 'a data) outcome" where
  "drain mf 0 cap pos d v = Returns (v, pos, d)"
| "drain mf (Suc n) cap pos d v =
     obind (take_slot mf pos d) (\<lambda>(x, d'). drain mf n cap (wrapping_inc pos cap) d' (v @ [x]))"

text \<open>\<^verbatim>\<open>out<T>::get_all\<close>.\<close>

definition out_get_all ::
  "('a \<Rightarrow> 'a) \<Rightarrow> out_end \<Rightarrow> 'a heap \<Rightarrow> ('a list option \<times> out_end \<times> 'a heap) outcome" where
  "out_get_all mf ep h =
     (if o_closed ep then Returns (None, ep, h)
      else
        obind (deref (o_shared ep) h) (\<lambda>(p, d).
          if mutex_busy d then Blocks
          else if \<not> (d_size d > 0 \<or> \<not> in_alive d) then Blocks
          else if d_size d > 0 then
            obind (drain mf (unat (d_size d)) (o_capacity ep) (read_pos ep) d []) (\<lambda>(v, pos, d').
              Returns (Some v, ep\<lparr>read_pos := pos, o_old_size := 0\<rparr>,
                       h(p \<mapsto> d'\<lparr>d_size := 0\<rparr>)))
          else Returns (None, ep\<lparr>o_old_size := 0, o_closed := True\<rparr>,
                        h(p \<mapsto> d\<lparr>out_alive := False\<rparr>))))"

text \<open>
  \<^verbatim>\<open>out<T>::try_get\<close>. The lock is taken by the same constructor
  \<^verbatim>\<open>std::unique_lock lock(shared->mutex)\<close> as everywhere else, which waits for the
  mutex and returns owning it, so \<^verbatim>\<open>lock.owns_lock()\<close> holds and the branch
  \<^verbatim>\<open>had_lock = false\<close> is never taken.
\<close>

definition out_try_get ::
  "('a \<Rightarrow> 'a) \<Rightarrow> out_end \<Rightarrow> 'a heap \<Rightarrow> ('a option \<times> out_end \<times> 'a heap) outcome" where
  "out_try_get mf ep h =
     (if \<not> o_closed ep then
        obind (deref (o_shared ep) h) (\<lambda>(p, d).
        obind (if o_old_size ep > 0
               then obind (take_slot mf (read_pos ep) d) (\<lambda>(x, d'). Returns (Some x, d'))
               else Returns (None, d)) (\<lambda>(result, d1).
          if mutex_busy d1 then Blocks
          else if d_size d1 > 0 then
            obind (if result = None
                   then obind (take_slot mf (read_pos ep) d1) (\<lambda>(x, d'). Returns (Some x, d'))
                   else Returns (result, d1)) (\<lambda>(result', d2).
              Returns (result',
                ep\<lparr>o_old_size := d_size d2 - 1,
                   read_pos := wrapping_inc (read_pos ep) (o_capacity ep)\<rparr>,
                h(p \<mapsto> d2\<lparr>d_size := d_size d2 - 1\<rparr>)))
          else if \<not> in_alive d1 then
            Returns (result, ep\<lparr>o_old_size := 0, o_closed := True\<rparr>,
                     h(p \<mapsto> d1\<lparr>out_alive := False\<rparr>))
          else Returns (result, ep, h(p \<mapsto> d1))))
      else Returns (None, ep, h))"

text \<open>\<^verbatim>\<open>out<T>::try_get_all\<close>.\<close>

definition out_try_get_all ::
  "('a \<Rightarrow> 'a) \<Rightarrow> out_end \<Rightarrow> 'a heap \<Rightarrow> ('a list option \<times> out_end \<times> 'a heap) outcome" where
  "out_try_get_all mf ep h =
     (if o_closed ep then Returns (None, ep, h)
      else
        obind (deref (o_shared ep) h) (\<lambda>(p, d).
          if mutex_busy d then Blocks
          else if d_size d > 0 then
            obind (drain mf (unat (d_size d)) (o_capacity ep) (read_pos ep) d []) (\<lambda>(v, pos, d').
              Returns (Some v, ep\<lparr>read_pos := pos, o_old_size := 0\<rparr>,
                       h(p \<mapsto> d'\<lparr>d_size := 0\<rparr>)))
          else if \<not> in_alive d then
            Returns (None, ep\<lparr>o_old_size := 0, o_closed := True\<rparr>,
                     h(p \<mapsto> d\<lparr>out_alive := False\<rparr>))
          else Returns (None, ep, h)))"

text \<open>
  \<^verbatim>\<open>out<T>::close\<close>, the destructor \<^verbatim>\<open>~out\<close> and the constructor
  \<^verbatim>\<open>out(std::shared_ptr<data<T>>)\<close>.
\<close>

definition out_close :: "out_end \<Rightarrow> 'a heap \<Rightarrow> (out_end \<times> 'a heap) outcome" where
  "out_close ep h =
     (if o_closed ep then Returns (ep, h)
      else
        obind (deref (o_shared ep) h) (\<lambda>(p, d).
          if mutex_busy d then Blocks
          else Returns (ep\<lparr>o_closed := True\<rparr>, h(p \<mapsto> d\<lparr>out_alive := False\<rparr>))))"

definition out_dtor :: "out_end \<Rightarrow> 'a heap \<Rightarrow> 'a heap outcome" where
  "out_dtor ep h =
     (if o_shared ep \<noteq> None then obind (out_close ep h) (\<lambda>(ep', h'). Returns h')
      else Returns h)"

definition out_ctor :: "addr option \<Rightarrow> 'a heap \<Rightarrow> (out_end \<times> 'a heap) outcome" where
  "out_ctor shared' h =
     obind (deref shared' h) (\<lambda>(p, d).
       if mutex_busy d then Blocks
       else Returns (\<lparr>o_shared = shared', read_pos = 0, o_old_size = 0,
                      o_capacity = d_capacity d, o_closed = False\<rparr>,
                     h(p \<mapsto> d\<lparr>out_alive := True\<rparr>)))"

subsection \<open>The producer\<close>

text \<open>\<^verbatim>\<open>in<T>::put(const T&)\<close>.\<close>

definition in_put :: "'a \<Rightarrow> in_end \<Rightarrow> 'a heap \<Rightarrow> (bool \<times> in_end \<times> 'a heap) outcome" where
  "in_put val ep h =
     (if i_closed ep then Returns (False, ep, h)
      else
        obind (deref (i_shared ep) h) (\<lambda>(p, d).
        obind (if i_old_size ep < i_capacity ep
               then obind (set_slot (write_pos ep) val d) (\<lambda>d'. Returns (True, d'))
               else Returns (False, d)) (\<lambda>(took_fast_path, d1).
          if mutex_busy d1 then Blocks
          else if \<not> (d_size d1 < i_capacity ep \<or> \<not> out_alive d1) then Blocks
          else if out_alive d1 then
            obind (if \<not> took_fast_path then set_slot (write_pos ep) val d1 else Returns d1)
              (\<lambda>d2.
                 Returns (True,
                   ep\<lparr>i_old_size := d_size d2 + 1,
                      write_pos := wrapping_inc (write_pos ep) (i_capacity ep)\<rparr>,
                   h(p \<mapsto> d2\<lparr>d_size := d_size d2 + 1\<rparr>)))
          else Returns (False, ep\<lparr>i_old_size := i_capacity ep, i_closed := True\<rparr>,
                        h(p \<mapsto> d1\<lparr>in_alive := False\<rparr>)))))"

text \<open>
  \<^verbatim>\<open>in<T>::put(T&&)\<close>: the value is moved into the slot, and \<^verbatim>\<open>old_size\<close> is
  not touched when the consumer is gone.
\<close>

definition in_put_rvalue :: "'a \<Rightarrow> in_end \<Rightarrow> 'a heap \<Rightarrow> (bool \<times> in_end \<times> 'a heap) outcome" where
  "in_put_rvalue val ep h =
     (if i_closed ep then Returns (False, ep, h)
      else
        obind (deref (i_shared ep) h) (\<lambda>(p, d).
        obind (if i_old_size ep < i_capacity ep
               then obind (set_slot (write_pos ep) val d) (\<lambda>d'. Returns (True, d'))
               else Returns (False, d)) (\<lambda>(took_fast_path, d1).
          if mutex_busy d1 then Blocks
          else if \<not> (d_size d1 < i_capacity ep \<or> \<not> out_alive d1) then Blocks
          else if out_alive d1 then
            obind (if \<not> took_fast_path then set_slot (write_pos ep) val d1 else Returns d1)
              (\<lambda>d2.
                 Returns (True,
                   ep\<lparr>i_old_size := d_size d2 + 1,
                      write_pos := wrapping_inc (write_pos ep) (i_capacity ep)\<rparr>,
                   h(p \<mapsto> d2\<lparr>d_size := d_size d2 + 1\<rparr>)))
          else Returns (False, ep\<lparr>i_closed := True\<rparr>, h(p \<mapsto> d1\<lparr>in_alive := False\<rparr>)))))"

text \<open>\<^verbatim>\<open>in<T>::wait_till_empty\<close>, which does not look at \<^verbatim>\<open>closed\<close> first.\<close>

definition wait_till_empty :: "in_end \<Rightarrow> 'a heap \<Rightarrow> (in_end \<times> 'a heap) outcome" where
  "wait_till_empty ep h =
     obind (deref (i_shared ep) h) (\<lambda>(p, d).
       if mutex_busy d then Blocks
       else if \<not> (d_size d = 0 \<or> \<not> out_alive d) then Blocks
       else if \<not> out_alive d then
         Returns (ep\<lparr>i_old_size := d_size d, i_closed := True\<rparr>,
                  h(p \<mapsto> d\<lparr>in_alive := False\<rparr>))
       else Returns (ep\<lparr>i_old_size := d_size d\<rparr>, h))"

text \<open>
  \<^verbatim>\<open>in<T>::close\<close>, the destructor \<^verbatim>\<open>~in\<close> and the constructor
  \<^verbatim>\<open>in(std::shared_ptr<data<T>>)\<close>.
\<close>

definition in_close :: "in_end \<Rightarrow> 'a heap \<Rightarrow> (in_end \<times> 'a heap) outcome" where
  "in_close ep h =
     (if i_closed ep then Returns (ep, h)
      else
        obind (deref (i_shared ep) h) (\<lambda>(p, d).
          if mutex_busy d then Blocks
          else Returns (ep\<lparr>i_closed := True\<rparr>, h(p \<mapsto> d\<lparr>in_alive := False\<rparr>))))"

definition in_dtor :: "in_end \<Rightarrow> 'a heap \<Rightarrow> 'a heap outcome" where
  "in_dtor ep h =
     (if i_shared ep \<noteq> None then obind (in_close ep h) (\<lambda>(ep', h'). Returns h')
      else Returns h)"

definition in_ctor :: "addr option \<Rightarrow> 'a heap \<Rightarrow> (in_end \<times> 'a heap) outcome" where
  "in_ctor shared' h =
     obind (deref shared' h) (\<lambda>(p, d).
       if mutex_busy d then Blocks
       else Returns (\<lparr>i_shared = shared', write_pos = 0, i_old_size = 0,
                      i_capacity = d_capacity d, i_closed = False\<rparr>,
                     h(p \<mapsto> d\<lparr>in_alive := True\<rparr>)))"

subsection \<open>Creation\<close>

text \<open>
  \<^verbatim>\<open>CreateBufferedChannel(capacity)\<close>. \<open>p\<close> is the address \<^verbatim>\<open>std::make_shared\<close>
  returns; when the constructor of the queue throws, nothing is left at \<open>p\<close> and the
  exception leaves the function. The two locals are moved into the pair that is
  returned and then destroyed, \<^verbatim>\<open>out\<close> first.
\<close>

definition CreateBufferedChannel ::
  "'a \<Rightarrow> addr \<Rightarrow> nat \<Rightarrow> bool \<Rightarrow> size_t \<Rightarrow> 'a heap
     \<Rightarrow> (in_end \<times> out_end \<times> 'a heap) outcome" where
  "CreateBufferedChannel dflt p max_size alloc_ok capacity' h =
     (let capacity'' = (if capacity' = 0 then 1 else capacity');
          shared' = Some p
      in obind (data_ctor max_size alloc_ok dflt capacity'') (\<lambda>d0.
         obind (in_ctor shared' (h(p \<mapsto> d0))) (\<lambda>(in', h2).
         obind (out_ctor shared' h2) (\<lambda>(out', h3).
           case in_move_ctor in' of (ret_in, in_left) \<Rightarrow>
           case out_move_ctor out' of (ret_out, out_left) \<Rightarrow>
             obind (out_dtor out_left h3) (\<lambda>h4.
             obind (in_dtor in_left h4) (\<lambda>h5.
               Returns (ret_in, ret_out, h5)))))))"

subsection \<open>Sequences of calls\<close>

text \<open>
  A sequence of calls on the two ends of one channel, each call run to completion
  before the next one starts. A run stops with the outcome of the first call that does
  not return (a call that blocks, since no other call can run meanwhile, or one that is
  undefined); otherwise it returns the calls with what they returned, and the state.
\<close>

datatype 'a call =
    Put 'a | Put_rvalue 'a | Wait_till_empty | Close_in
  | Get | Try_get | Get_all | Try_get_all | Close_out

datatype 'a ret =
    Put_ret bool | Get_ret "'a option" | Get_all_ret "'a list option" | Void_ret

type_synonym 'a channel = "in_end \<times> out_end \<times> 'a heap"

definition step ::
  "('a \<Rightarrow> 'a) \<Rightarrow> 'a call \<Rightarrow> 'a channel \<Rightarrow> ('a ret \<times> 'a channel) outcome" where
  "step mf c s =
     (case s of (ip, op, h) \<Rightarrow>
      (case c of
         Put v \<Rightarrow> obind (in_put v ip h) (\<lambda>(r, ip', h'). Returns (Put_ret r, ip', op, h'))
       | Put_rvalue v \<Rightarrow>
           obind (in_put_rvalue v ip h) (\<lambda>(r, ip', h'). Returns (Put_ret r, ip', op, h'))
       | Wait_till_empty \<Rightarrow>
           obind (wait_till_empty ip h) (\<lambda>(ip', h'). Returns (Void_ret, ip', op, h'))
       | Close_in \<Rightarrow> obind (in_close ip h) (\<lambda>(ip', h'). Returns (Void_ret, ip', op, h'))
       | Get \<Rightarrow> obind (out_get mf op h) (\<lambda>(r, op', h'). Returns (Get_ret r, ip, op', h'))
       | Try_get \<Rightarrow>
           obind (out_try_get mf op h) (\<lambda>(r, op', h'). Returns (Get_ret r, ip, op', h'))
       | Get_all \<Rightarrow>
           obind (out_get_all mf op h) (\<lambda>(r, op', h'). Returns (Get_all_ret r, ip, op', h'))
       | Try_get_all \<Rightarrow>
           obind (out_try_get_all mf op h) (\<lambda>(r, op', h'). Returns (Get_all_ret r, ip, op', h'))
       | Close_out \<Rightarrow> obind (out_close op h) (\<lambda>(op', h'). Returns (Void_ret, ip, op', h'))))"

fun run ::
  "('a \<Rightarrow> 'a) \<Rightarrow> 'a call list \<Rightarrow> 'a channel
     \<Rightarrow> (('a call \<times> 'a ret) list \<times> 'a channel) outcome" where
  "run mf [] s = Returns ([], s)"
| "run mf (c # cs) s =
     obind (step mf c s) (\<lambda>(r, s').
       obind (run mf cs s') (\<lambda>(tr, s''). Returns ((c, r) # tr, s'')))"

text \<open>
  What a run shows: the values of the puts that returned true, in the order of the
  calls, and the values the consumer was handed, in the order it was handed them.
\<close>

fun put_value :: "'a call \<times> 'a ret \<Rightarrow> 'a list" where
  "put_value (Put v, Put_ret True) = [v]"
| "put_value (Put_rvalue v, Put_ret True) = [v]"
| "put_value _ = []"

fun got_values :: "'a call \<times> 'a ret \<Rightarrow> 'a list" where
  "got_values (_, Get_ret (Some v)) = [v]"
| "got_values (_, Get_all_ret (Some vs)) = vs"
| "got_values _ = []"

definition sent :: "('a call \<times> 'a ret) list \<Rightarrow> 'a list" where
  "sent tr = concat (map put_value tr)"

definition received :: "('a call \<times> 'a ret) list \<Rightarrow> 'a list" where
  "received tr = concat (map got_values tr)"

text \<open>
  The elements that are in the queue, oldest first: the \<open>n\<close> slots of the circular
  buffer from \<open>r\<close> on.
\<close>

definition ring :: "nat \<Rightarrow> nat \<Rightarrow> nat \<Rightarrow> 'a list \<Rightarrow> 'a list" where
  "ring C r n xs = map (\<lambda>k. xs ! ((r + k) mod C)) [0..<n]"

definition buffered :: "addr \<Rightarrow> 'a channel \<Rightarrow> 'a list" where
  "buffered p s =
     (case s of (ip, op, h) \<Rightarrow>
      (case h p of
         None \<Rightarrow> []
       | Some d \<Rightarrow> ring (unat (d_capacity d)) (unat (read_pos op)) (unat (d_size d)) (storage d)))"

text \<open>
  The invariant of a channel whose queue lives at \<open>p\<close>: both ends point to it and
  know its capacity, the storage has that many slots, the positions are inside it with
  \<open>write_pos\<close> just behind the occupied slots, the consumer's cached size is not above
  the size and the producer's not below it, an end is closed exactly when its
  liveness flag is down, and between two calls nobody holds the mutex.
\<close>

definition chan_inv :: "addr \<Rightarrow> 'a channel \<Rightarrow> bool" where
  "chan_inv p s =
     (case s of (ip, op, h) \<Rightarrow>
      (case h p of
         None \<Rightarrow> False
       | Some d \<Rightarrow>
           i_shared ip = Some p \<and> o_shared op = Some p
         \<and> i_capacity ip = d_capacity d \<and> o_capacity op = d_capacity d
         \<and> 0 < unat (d_capacity d) \<and> length (storage d) = unat (d_capacity d)
         \<and> unat (d_size d) \<le> unat (d_capacity d)
         \<and> unat (read_pos op) < unat (d_capacity d)
         \<and> unat (write_pos ip) < unat (d_capacity d)
         \<and> unat (write_pos ip)
             = (unat (read_pos op) + unat (d_size d)) mod unat (d_capacity d)
         \<and> (o_closed op \<or> unat (o_old_size op) \<le> unat (d_size d))
         \<and> (i_closed ip \<or> unat (d_size d) \<le> unat (i_old_size ip))
         \<and> i_closed ip = (\<not> in_alive d) \<and> o_closed op = (\<not> out_alive d)
         \<and> \<not> mutex_busy d))"

subsection \<open>The channel as the specification describes it\<close>

text \<open>
  The queue of the specification's section 4.4, written from its words and not from
  the code, to compare the code with: the elements in the order they were put, the
  capacity, and whether each end has closed. A capacity of 0 is coerced to 1.
  \<open>spec_put\<close> waits until there is room or the consumer is dead, appends and returns
  true, or closes the producer and returns false when the consumer is dead.
  \<open>spec_get\<close> waits until there is an element or the producer is dead, hands over
  the front element, or closes the consumer and returns end-of-stream when the queue is
  drained and the producer dead; \<open>spec_get_all\<close> hands over all elements at once.
  With \<open>waits\<close> false they are \<^verbatim>\<open>try_get\<close> and \<^verbatim>\<open>try_get_all\<close>, which return
  where the others would wait. \<open>spec_wait_till_empty\<close> waits until the queue is empty
  or the consumer dead, and closes the producer in the latter case. An operation on an
  end that is closed returns false or end-of-stream and changes nothing.
\<close>

record 'a spec_channel =
  queued :: "'a list"
  bound :: nat
  producer_closed :: bool
  consumer_closed :: bool

definition spec_create :: "nat \<Rightarrow> 'a spec_channel" where
  "spec_create n =
     \<lparr>queued = [], bound = max n 1, producer_closed = False, consumer_closed = False\<rparr>"

definition spec_put :: "'a \<Rightarrow> 'a spec_channel \<Rightarrow> (bool \<times> 'a spec_channel) outcome" where
  "spec_put v q =
     (if producer_closed q then Returns (False, q)
      else if consumer_closed q then Returns (False, q\<lparr>producer_closed := True\<rparr>)
      else if length (queued q) < bound q then Returns (True, q\<lparr>queued := queued q @ [v]\<rparr>)
      else Blocks)"

definition spec_wait_till_empty :: "'a spec_channel \<Rightarrow> 'a spec_channel outcome" where
  "spec_wait_till_empty q =
     (if consumer_closed q then Returns (q\<lparr>producer_closed := True\<rparr>)
      else if queued q = [] then Returns q
      else Blocks)"

definition spec_close_in :: "'a spec_channel \<Rightarrow> 'a spec_channel outcome" where
  "spec_close_in q = Returns (q\<lparr>producer_closed := True\<rparr>)"

definition spec_get :: "bool \<Rightarrow> 'a spec_channel \<Rightarrow> ('a option \<times> 'a spec_channel) outcome" where
  "spec_get waits q =
     (if consumer_closed q then Returns (None, q)
      else (case queued q of
              x # xs \<Rightarrow> Returns (Some x, q\<lparr>queued := xs\<rparr>)
            | [] \<Rightarrow> if producer_closed q then Returns (None, q\<lparr>consumer_closed := True\<rparr>)
                    else if waits then Blocks
                    else Returns (None, q)))"

definition spec_get_all ::
  "bool \<Rightarrow> 'a spec_channel \<Rightarrow> ('a list option \<times> 'a spec_channel) outcome" where
  "spec_get_all waits q =
     (if consumer_closed q then Returns (None, q)
      else if queued q \<noteq> [] then Returns (Some (queued q), q\<lparr>queued := []\<rparr>)
      else if producer_closed q then Returns (None, q\<lparr>consumer_closed := True\<rparr>)
      else if waits then Blocks
      else Returns (None, q))"

definition spec_close_out :: "'a spec_channel \<Rightarrow> 'a spec_channel outcome" where
  "spec_close_out q = Returns (q\<lparr>consumer_closed := True\<rparr>)"

definition spec_step ::
  "'a call \<Rightarrow> 'a spec_channel \<Rightarrow> ('a ret \<times> 'a spec_channel) outcome" where
  "spec_step c q =
     (case c of
        Put v \<Rightarrow> obind (spec_put v q) (\<lambda>(r, q'). Returns (Put_ret r, q'))
      | Put_rvalue v \<Rightarrow> obind (spec_put v q) (\<lambda>(r, q'). Returns (Put_ret r, q'))
      | Wait_till_empty \<Rightarrow> obind (spec_wait_till_empty q) (\<lambda>q'. Returns (Void_ret, q'))
      | Close_in \<Rightarrow> obind (spec_close_in q) (\<lambda>q'. Returns (Void_ret, q'))
      | Get \<Rightarrow> obind (spec_get True q) (\<lambda>(r, q'). Returns (Get_ret r, q'))
      | Try_get \<Rightarrow> obind (spec_get False q) (\<lambda>(r, q'). Returns (Get_ret r, q'))
      | Get_all \<Rightarrow> obind (spec_get_all True q) (\<lambda>(r, q'). Returns (Get_all_ret r, q'))
      | Try_get_all \<Rightarrow> obind (spec_get_all False q) (\<lambda>(r, q'). Returns (Get_all_ret r, q'))
      | Close_out \<Rightarrow> obind (spec_close_out q) (\<lambda>q'. Returns (Void_ret, q')))"

fun spec_run ::
  "'a call list \<Rightarrow> 'a spec_channel
     \<Rightarrow> (('a call \<times> 'a ret) list \<times> 'a spec_channel) outcome" where
  "spec_run [] q = Returns ([], q)"
| "spec_run (c # cs) q =
     obind (spec_step c q) (\<lambda>(r, q').
       obind (spec_run cs q') (\<lambda>(tr, q''). Returns ((c, r) # tr, q'')))"

text \<open>
  What a state of the code stands for in these terms: the occupied slots of the
  circular buffer from \<^verbatim>\<open>read_pos\<close> on, the capacity of the queue, and the closed
  flags of the two ends.
\<close>

definition abstraction :: "addr \<Rightarrow> 'a channel \<Rightarrow> 'a spec_channel" where
  "abstraction p s =
     (case s of (ip, op, h) \<Rightarrow>
        \<lparr>queued = buffered p s,
         bound = (case h p of None \<Rightarrow> 0 | Some d \<Rightarrow> unat (d_capacity d)),
         producer_closed = i_closed ip,
         consumer_closed = o_closed op\<rparr>)"

text \<open>
  The calls of the specification's first channel scenario: three puts on a channel of
  capacity 2, with the gets in between, then the producer's close and one more get.
\<close>

definition happy_path :: "nat call list" where
  "happy_path = [Put 10, Put 20, Get, Put 30, Get, Get, Close_in, Get]"

text \<open>
  A producer that puts one value and closes before the consumer has asked for it, and
  a consumer that then asks twice.
\<close>

definition late_get :: "nat call list" where
  "late_get = [Put 10, Close_in, Get, Get]"

text \<open>
  A channel of capacity 2 with nothing in it, both ends open and the mutex free.
\<close>

definition waiting_channel :: "nat channel" where
  "waiting_channel =
     (\<lparr>i_shared = Some 0, write_pos = 0, i_old_size = 0, i_capacity = 2, i_closed = False\<rparr>,
      \<lparr>o_shared = Some 0, read_pos = 0, o_old_size = 0, o_capacity = 2, o_closed = False\<rparr>,
      (\<lambda>a. None)(0 \<mapsto> \<lparr>d_size = 0, d_capacity = 2, storage = [0, 0], mutex_busy = False,
                        in_alive = True, out_alive = True\<rparr>))"

section \<open>Results about raii\_fd\<close>

text \<open>
  Once \<^verbatim>\<open>is_ok()\<close> is false it stays false under every operation, and a failed
  \<^verbatim>\<open>read\<close>, \<^verbatim>\<open>write\<close> or \<^verbatim>\<open>size_then_reset\<close> and a failed open make it
  false.
\<close>

lemma not_ok_stays:
  assumes "\<not> fd_is_ok f"
  shows "\<not> fd_is_ok (fst (snd (fd_write res n f k)))"
    and "\<not> fd_is_ok (fst (snd (fd_read res n f k)))"
    and "\<not> fd_is_ok (fst (snd (fd_seek res n f k)))"
    and "\<not> fd_is_ok (fst (snd (fd_resize res' n f k)))"
    and "\<not> fd_is_ok (fst (snd (size_then_reset res res2 f k)))"
  using assms
  by (auto simp: fd_is_ok_def fd_write_def fd_read_def fd_seek_def fd_resize_def
        size_then_reset_def)

lemma failure_sets_error:
  "\<not> fst (fd_write res n f k) \<Longrightarrow> \<not> fd_is_ok (fst (snd (fd_write res n f k)))"
  "\<not> fst (fd_read res n f k) \<Longrightarrow> \<not> fd_is_ok (fst (snd (fd_read res n f k)))"
  "fst (size_then_reset res res2 f k) = None
     \<Longrightarrow> \<not> fd_is_ok (fst (snd (size_then_reset res res2 f k)))"
  "res' <s 0 \<Longrightarrow> \<not> fd_is_ok (raii_fd_open res' fl md)"
  by (auto simp: fd_is_ok_def fd_write_def fd_read_def size_then_reset_def raii_fd_open_def
        split: if_splits)

text \<open>
  C4 (the error bit of raii\_fd after a failed seek). On a descriptor that is open and
  has seen no error, \<^verbatim>\<open>seek(16)\<close> with \<^verbatim>\<open>lseek\<close> returning \<open>-1\<close> returns false and
  leaves every member as it was, so \<^verbatim>\<open>is_ok()\<close> still returns true afterwards:
  \<^verbatim>\<open>seek\<close> does not set the error bit, while \<^verbatim>\<open>read\<close>, \<^verbatim>\<open>write\<close> and
  \<^verbatim>\<open>size_then_reset\<close> set it when their system call fails.
\<close>

theorem seek_failure_not_sticky:
  "fd_seek (- 1) 16 \<lparr>fd = 3, flags = 0, mode = 0, fd_error = False\<rparr>
        \<lparr>f_offset = 0, f_length = 64\<rparr>
     = (False, \<lparr>fd = 3, flags = 0, mode = 0, fd_error = False\<rparr>,
        \<lparr>f_offset = 0, f_length = 64\<rparr>)
   \<and> fd_is_ok \<lparr>fd = 3, flags = 0, mode = 0, fd_error = False\<rparr>"
  by (simp add: fd_seek_def sys_lseek_def fd_is_ok_def word_sless_alt)

section \<open>Results about file\_based\_vector\<close>

subsection \<open>Arithmetic of the growth policy\<close>

lemma ceil_mult_least:
  fixes D K :: nat
  assumes "0 < K" "0 < D"
  shows "1 \<le> (D + K - 1) div K"
    and "D \<le> ((D + K - 1) div K) * K"
    and "((D + K - 1) div K) * K \<le> D + K - 1"
    and "D \<le> i * K \<Longrightarrow> (D + K - 1) div K \<le> i"
proof -
  show "1 \<le> (D + K - 1) div K"
    using assms by (simp add: Suc_le_eq div_greater_zero_iff)
  show "((D + K - 1) div K) * K \<le> D + K - 1"
    by simp
  have "D + K - 1 < ((D + K - 1) div K) * K + K"
    using assms(1) by (metis add.commute dividend_less_div_times)
  then show "D \<le> ((D + K - 1) div K) * K" using assms by linarith
  show "(D + K - 1) div K \<le> i" if "D \<le> i * K"
  proof -
    have "D + K - 1 < i * K + K" using that assms by linarith
    then have "D + K - 1 < (Suc i) * K" by simp
    then have "(D + K - 1) div K < Suc i"
      using assms(1) by (simp add: less_mult_imp_div_less)
    then show ?thesis by simp
  qed
qed

lemma reserve_at_grow:
  fixes v :: file_based_vector
  assumes ne: "\<not> vec_error v"
    and gt: "capacity v < used v + n"
    and fit: "unat (used v) + unat n + unat (capacity_chunk_size v) \<le> 2 ^ 64"
    and k0: "capacity_chunk_size v \<noteq> 0"
  defines "q \<equiv> (unat (used v) + unat n - unat (capacity v) + unat (capacity_chunk_size v) - 1)
                  div unat (capacity_chunk_size v)"
  defines "new_cap \<equiv> capacity v
             + ((used v + n - capacity v + capacity_chunk_size v - 1) div capacity_chunk_size v)
                 * capacity_chunk_size v"
  shows "reserve_at asserts es 0 (used v) n (v, k)
           = Returns (Some (used v),
               v\<lparr>capacity := new_cap, used := used v + n\<rparr>,
               k\<lparr>f_length := new_cap * es\<rparr>)"
    and "unat new_cap = unat (capacity v) + q * unat (capacity_chunk_size v)"
    and "unat (used v + n) = unat (used v) + unat n"
proof -
  let ?K = "unat (capacity_chunk_size v)"
  let ?C = "unat (capacity v)"
  have Kpos: "0 < ?K" using k0 by (simp add: unat_gt_0)
  have sum: "unat (used v + n) = unat (used v) + unat n"
    using fit Kpos by (simp add: unat_add_lem [THEN iffD1])
  show "unat (used v + n) = unat (used v) + unat n" by (rule sum)
  have Clt: "?C < unat (used v) + unat n"
    using gt sum by (simp add: word_less_nat_alt)
  let ?D = "unat (used v) + unat n - ?C"
  have Dpos: "0 < ?D" using Clt by simp
  have delta: "unat (used v + n - capacity v) = ?D"
    using Clt sum by (simp add: unat_sub word_le_nat_alt)
  have km1: "unat (capacity_chunk_size v - 1) = ?K - 1"
    using Kpos by (simp add: unat_sub word_le_nat_alt)
  have "unat (used v + n - capacity v) + unat (capacity_chunk_size v - 1) < 2 ^ LENGTH(64)"
    using delta km1 fit Clt Kpos by simp
  then have "unat (used v + n - capacity v + (capacity_chunk_size v - 1))
      = unat (used v + n - capacity v) + unat (capacity_chunk_size v - 1)"
    by (rule unat_add_lem [THEN iffD1])
  then have d2: "unat (used v + n - capacity v + capacity_chunk_size v - 1) = ?D + ?K - 1"
    using Kpos delta km1 by (simp add: add_diff_eq)
  have qd: "unat ((used v + n - capacity v + capacity_chunk_size v - 1) div capacity_chunk_size v) = q"
    using d2 by (simp add: unat_div q_def)
  have qK: "q * ?K \<le> ?D + ?K - 1"
    unfolding q_def using ceil_mult_least(3) [OF Kpos Dpos] by simp
  have Dq: "?D \<le> q * ?K"
    unfolding q_def using ceil_mult_least(2) [OF Kpos Dpos] by simp
  have num: "unat (((used v + n - capacity v + capacity_chunk_size v - 1) div capacity_chunk_size v)
                 * capacity_chunk_size v) = q * ?K"
    using qd qK fit Clt by (simp add: unat_mult_lem [THEN iffD1])
  have nc: "unat new_cap = ?C + q * ?K"
    unfolding new_cap_def using num qK fit Clt by (simp add: unat_add_lem [THEN iffD1])
  show "unat new_cap = ?C + q * ?K" by (rule nc)
  have ge: "used v + n \<le> new_cap"
    using nc Dq sum by (simp add: word_le_nat_alt)
  have ge': "used v + n \<le> ((used v + n - capacity v + capacity_chunk_size v - 1) div capacity_chunk_size v)
                 * capacity_chunk_size v + capacity v"
    using ge by (simp add: new_cap_def add.commute)
  have nolt: "\<not> used v + n < used v"
    using sum by (simp add: word_less_nat_alt)
  have mx: "max (used v) (used v + n) = used v + n"
    using nolt by (simp add: max_def not_less)
  show "reserve_at asserts es 0 (used v) n (v, k)
           = Returns (Some (used v),
               v\<lparr>capacity := new_cap, used := used v + n\<rparr>,
               k\<lparr>f_length := new_cap * es\<rparr>)"
    using ne gt k0 nolt ge ge' mx
    by (simp add: reserve_at_def Let_def fd_resize_def sys_ftruncate_def new_cap_def [symmetric]
          not_less [symmetric])
qed


lemma reserve_at_fits:
  fixes v :: file_based_vector
  assumes ne: "\<not> vec_error v"
    and sum: "unat (used v) + unat n < 2 ^ 64"
    and le: "\<not> capacity v < used v + n"
  shows "reserve_at asserts es rz (used v) n (v, k)
           = Returns (Some (used v), v\<lparr>used := used v + n\<rparr>, k)"
proof -
  have "unat (used v + n) = unat (used v) + unat n"
    using sum by (simp add: unat_add_lem [THEN iffD1])
  then have nolt: "\<not> used v + n < used v"
    by (simp add: word_less_nat_alt)
  then have mx: "max (used v) (used v + n) = used v + n"
    by (simp add: max_def not_less)
  show ?thesis
    using ne le nolt mx by (simp add: reserve_at_def)
qed

subsection \<open>reserve\<close>

text \<open>
  C3, as the code has it. For a vector in a non-error state and a count \<open>n\<close> with
  \<open>used + n\<close> not overflowing, and provided that, when the capacity has to grow
  (\<open>used + n > capacity\<close>), the chunk size is at least 1, \<open>used + n + chunk\<close> does not
  exceed \<open>2^64\<close> and \<^verbatim>\<open>ftruncate\<close> succeeds: \<^verbatim>\<open>reserve(n)\<close> returns the pre-reserve
  \<open>used\<close>, extends \<open>used\<close> by \<open>n\<close>, grows the capacity (when it has to grow) to the
  smallest \<open>capacity + j * chunk\<close> with \<open>j \<ge> 1\<close> that is at least \<open>used + n\<close> and
  leaves it alone otherwise, and sets \<open>iter\<close> to the post-reserve \<open>used\<close>, that is to
  the pre-reserve \<open>used\<close> plus \<open>n\<close>.
\<close>

theorem reserve_extends:
  fixes v :: file_based_vector
  assumes ne: "\<not> vec_error v"
    and sum: "unat (used v) + unat n < 2 ^ 64"
    and grow: "unat (capacity v) < unat (used v) + unat n \<Longrightarrow>
                 capacity_chunk_size v \<noteq> 0
               \<and> unat (used v) + unat n + unat (capacity_chunk_size v) \<le> 2 ^ 64
               \<and> rz = 0"
  shows "\<exists>v' k'. reserve asserts es rz n (v, k) = Returns (Some (used v), v', k')
           \<and> unat (used v') = unat (used v) + unat n
           \<and> iter v' = used v'
           \<and> (if unat (capacity v) < unat (used v) + unat n
                then \<exists>j\<ge>1. unat (capacity v') = unat (capacity v) + j * unat (capacity_chunk_size v)
                       \<and> unat (used v) + unat n \<le> unat (capacity v')
                       \<and> (\<forall>i\<ge>1. unat (used v) + unat n
                                     \<le> unat (capacity v) + i * unat (capacity_chunk_size v)
                                   \<longrightarrow> j \<le> i)
                else capacity v' = capacity v)
           \<and> capacity_chunk_size v' = capacity_chunk_size v
           \<and> vfile v' = vfile v \<and> \<not> vec_error v'"
proof -
  have usum: "unat (used v + n) = unat (used v) + unat n"
    using sum by (simp add: unat_add_lem [THEN iffD1])
  show ?thesis
  proof (cases "unat (capacity v) < unat (used v) + unat n")
    case False
    then have le: "\<not> capacity v < used v + n"
      using usum by (simp add: word_less_nat_alt)
    show ?thesis
      using reserve_at_fits [OF ne sum le] False ne usum
      by (simp add: reserve_def obind_def)
  next
    case True
    then have gt: "capacity v < used v + n"
      using usum by (simp add: word_less_nat_alt)
    from grow [OF True] have k0: "capacity_chunk_size v \<noteq> 0"
      and fit: "unat (used v) + unat n + unat (capacity_chunk_size v) \<le> 2 ^ 64"
      and rz: "rz = 0" by simp_all
    let ?K = "unat (capacity_chunk_size v)"
    let ?D = "unat (used v) + unat n - unat (capacity v)"
    let ?q = "(?D + ?K - 1) div ?K"
    let ?nc = "capacity v
             + ((used v + n - capacity v + capacity_chunk_size v - 1) div capacity_chunk_size v)
                 * capacity_chunk_size v"
    have Kpos: "0 < ?K" using k0 by (simp add: unat_gt_0)
    have Dpos: "0 < ?D" using True by simp
    note g = reserve_at_grow [OF ne gt fit k0]
    have nc: "unat ?nc = unat (capacity v) + ?q * ?K" using g(2) by simp
    have q1: "1 \<le> ?q" by (rule ceil_mult_least(1) [OF Kpos Dpos])
    have q2: "?D \<le> ?q * ?K" by (rule ceil_mult_least(2) [OF Kpos Dpos])
    have q3: "\<forall>i\<ge>1. unat (used v) + unat n \<le> unat (capacity v) + i * ?K \<longrightarrow> ?q \<le> i"
    proof (intro allI impI)
      fix i :: nat
      assume "unat (used v) + unat n \<le> unat (capacity v) + i * ?K"
      then have "?D \<le> i * ?K" by simp
      then show "?q \<le> i" by (rule ceil_mult_least(4) [OF Kpos Dpos])
    qed
    have cover: "unat (used v) + unat n \<le> unat ?nc"
      using nc q2 True by simp
    have "\<exists>j\<ge>1. unat ?nc = unat (capacity v) + j * ?K
             \<and> unat (used v) + unat n \<le> unat ?nc
             \<and> (\<forall>i\<ge>1. unat (used v) + unat n \<le> unat (capacity v) + i * ?K \<longrightarrow> j \<le> i)"
      using nc q1 q3 cover by blast
    then show ?thesis
      using g(1) True ne usum rz by (simp add: reserve_def obind_def)
  qed
qed

text \<open>
  The theorem at \<open>chunk = 8\<close> on an empty vector: \<^verbatim>\<open>reserve(5)\<close> returns index 0
  with \<open>used = 5\<close>, \<open>iter = 5\<close> and \<open>capacity = 8\<close>.
\<close>

theorem reserve_extends_witness:
  "\<not> vec_error \<lparr>used = 0, capacity = 0, iter = 0, capacity_chunk_size = 8,
        vfile = \<lparr>fd = 3, flags = 0, mode = 0, fd_error = False\<rparr>, vec_error = False\<rparr>
   \<and> (\<exists>v' k'. reserve True 8 0 5
      (\<lparr>used = 0, capacity = 0, iter = 0, capacity_chunk_size = 8,
        vfile = \<lparr>fd = 3, flags = 0, mode = 0, fd_error = False\<rparr>, vec_error = False\<rparr>,
       \<lparr>f_offset = 0, f_length = 0\<rparr>) = Returns (Some 0, v', k')
      \<and> unat (used v') = 5 \<and> iter v' = used v' \<and> unat (capacity v') = 8)"
  using reserve_extends [of "\<lparr>used = 0, capacity = 0, iter = 0, capacity_chunk_size = 8,
        vfile = \<lparr>fd = 3, flags = 0, mode = 0, fd_error = False\<rparr>, vec_error = False\<rparr>"
      5 0 True 8 "\<lparr>f_offset = 0, f_length = 0\<rparr>"]
  by (simp add: reserve_def reserve_at_def obind_def fd_resize_def sys_ftruncate_def)

text \<open>
  C3 as the specification words it fails. With \<open>chunk = 8\<close> on an empty vector,
  \<^verbatim>\<open>reserve(5)\<close> leaves \<open>iter\<close> at 5, the post-reserve \<open>used\<close>, and not at the
  pre-reserve \<open>used\<close>, which is 0. On the same vector, in a non-error state,
  \<^verbatim>\<open>reserve(5)\<close> returns no index and extends nothing when \<^verbatim>\<open>ftruncate\<close> fails.
  With a chunk size of 0 the growth divides by zero. And with \<open>chunk = 2^63 + 1\<close>,
  \<^verbatim>\<open>reserve(2^63 + 1)\<close> on an empty vector has \<open>used + n\<close> inside the word but
  \<open>delta + chunk - 1\<close> wrapping to 1, so the capacity computed is too small and no
  index is returned.
\<close>

theorem reserve_iter_counterexample:
  "reserve True 8 0 5
      (\<lparr>used = 0, capacity = 0, iter = 0, capacity_chunk_size = 8,
        vfile = \<lparr>fd = 3, flags = 0, mode = 0, fd_error = False\<rparr>, vec_error = False\<rparr>,
       \<lparr>f_offset = 0, f_length = 0\<rparr>)
    = Returns (Some 0,
       \<lparr>used = 5, capacity = 8, iter = 5, capacity_chunk_size = 8,
        vfile = \<lparr>fd = 3, flags = 0, mode = 0, fd_error = False\<rparr>, vec_error = False\<rparr>,
       \<lparr>f_offset = 0, f_length = 64\<rparr>)
   \<and> (5 :: size_t) \<noteq> 0
   \<and> reserve True 8 (- 1) 5
      (\<lparr>used = 0, capacity = 0, iter = 0, capacity_chunk_size = 8,
        vfile = \<lparr>fd = 3, flags = 0, mode = 0, fd_error = False\<rparr>, vec_error = False\<rparr>,
       \<lparr>f_offset = 0, f_length = 0\<rparr>)
    = Returns (None,
       \<lparr>used = 0, capacity = 0, iter = 0, capacity_chunk_size = 8,
        vfile = \<lparr>fd = 3, flags = 0, mode = 0, fd_error = False\<rparr>, vec_error = True\<rparr>,
       \<lparr>f_offset = 0, f_length = 0\<rparr>)
   \<and> reserve True 8 0 5
      (\<lparr>used = 0, capacity = 0, iter = 0, capacity_chunk_size = 0,
        vfile = \<lparr>fd = 3, flags = 0, mode = 0, fd_error = False\<rparr>, vec_error = False\<rparr>,
       \<lparr>f_offset = 0, f_length = 0\<rparr>)
    = Undefined
   \<and> reserve False 8 0 9223372036854775809
      (\<lparr>used = 0, capacity = 0, iter = 0, capacity_chunk_size = 9223372036854775809,
        vfile = \<lparr>fd = 3, flags = 0, mode = 0, fd_error = False\<rparr>, vec_error = False\<rparr>,
       \<lparr>f_offset = 0, f_length = 0\<rparr>)
    = Returns (None,
       \<lparr>used = 0, capacity = 0, iter = 0, capacity_chunk_size = 9223372036854775809,
        vfile = \<lparr>fd = 3, flags = 0, mode = 0, fd_error = False\<rparr>, vec_error = False\<rparr>,
       \<lparr>f_offset = 0, f_length = 0\<rparr>)"
  by (simp add: reserve_def reserve_at_def obind_def fd_resize_def sys_ftruncate_def)

subsection \<open>write\_at\<close>

text \<open>
  C7. A successful \<^verbatim>\<open>write_at(start, arr, n)\<close> (one that returns an index) leaves
  \<open>iter\<close>, \<open>used\<close> and \<open>capacity\<close> unchanged and leaves the descriptor's file offset
  at \<open>elem_size * iter\<close>, the product the code hands to \<^verbatim>\<open>lseek\<close>. It returns
  \<open>start\<close>, and it succeeds only from a non-error state with \<open>start \<le> used\<close>.
\<close>

theorem write_at_restores_position:
  assumes "write_at es rs start n (v, k) = (Some r, v', k')"
  shows "iter v' = iter v \<and> used v' = used v \<and> capacity v' = capacity v
       \<and> f_offset k' = es * iter v \<and> r = start \<and> \<not> vec_error v \<and> start \<le> used v"
  using assms
  by (auto simp: write_at_def fd_seek_def fd_write_def sys_lseek_def sys_write_def
       split: prod.splits if_splits)

text \<open>
  The theorem at a vector of 8-byte elements with \<open>used = 4\<close> and \<open>iter = 2\<close>:
  writing two elements at index 1 succeeds and leaves the offset at 16.
\<close>

theorem write_at_restores_position_witness:
  "write_at 8 (8, 16, 16) 1 2
      (\<lparr>used = 4, capacity = 8, iter = 2, capacity_chunk_size = 8,
        vfile = \<lparr>fd = 3, flags = 0, mode = 0, fd_error = False\<rparr>, vec_error = False\<rparr>,
       \<lparr>f_offset = 16, f_length = 64\<rparr>)
    = (Some 1,
       \<lparr>used = 4, capacity = 8, iter = 2, capacity_chunk_size = 8,
        vfile = \<lparr>fd = 3, flags = 0, mode = 0, fd_error = False\<rparr>, vec_error = False\<rparr>,
       \<lparr>f_offset = 16, f_length = 64\<rparr>)
   \<and> f_offset \<lparr>f_offset = 16, f_length = 64\<rparr> = 8 * (2 :: size_t)"
  using write_at_restores_position [of 8 "(8, 16, 16)" 1 2
      "\<lparr>used = 4, capacity = 8, iter = 2, capacity_chunk_size = 8,
        vfile = \<lparr>fd = 3, flags = 0, mode = 0, fd_error = False\<rparr>, vec_error = False\<rparr>"
      "\<lparr>f_offset = 16, f_length = 64\<rparr>" 1
      "\<lparr>used = 4, capacity = 8, iter = 2, capacity_chunk_size = 8,
        vfile = \<lparr>fd = 3, flags = 0, mode = 0, fd_error = False\<rparr>, vec_error = False\<rparr>"
      "\<lparr>f_offset = 16, f_length = 64\<rparr>"]
  by (simp add: write_at_def fd_seek_def fd_write_def sys_lseek_def sys_write_def word_sless_alt)

subsection \<open>Overflow of start + count\<close>

text \<open>
  \<^verbatim>\<open>reserve_at\<close> tests the sum, so \<^verbatim>\<open>reserve\<close> and \<^verbatim>\<open>write\<close> return no index
  and change nothing when it overflows.
\<close>

lemma reserve_at_overflow:
  assumes "at + n < at"
  shows "reserve_at asserts es rz at n (v, k) = Returns (None, v, k)"
  using assms by (simp add: reserve_at_def)

lemma reserve_write_overflow:
  shows "used v + n < used v \<Longrightarrow> reserve asserts es rz n (v, k) = Returns (None, v, k)"
    and "iter v + n < iter v \<Longrightarrow> write_vec asserts es rz rs n (v, k) = Returns (None, v, k)"
  by (simp_all add: reserve_def write_vec_def reserve_at_overflow obind_def)

text \<open>
  C6 (overflow of \<open>start + count\<close> in \<^verbatim>\<open>write_at\<close> and \<^verbatim>\<open>read_at\<close>). On a vector
  with \<open>used = 1\<close>, \<^verbatim>\<open>write_at(1, arr, 2^64 - 1)\<close> has \<open>start + count\<close> overflowing; the
  code does not look at the sum, seeks to byte 8, calls \<^verbatim>\<open>write\<close> and, the write
  coming back short, sets the error flags of the vector and of the descriptor and
  leaves the file offset moved. On a vector with \<open>used = 10\<close>, \<^verbatim>\<open>read_at(5, 2^64 - 3)\<close>
  has \<open>start + count\<close> wrapping to 2, which passes the bounds check, so the call goes
  on to \<^verbatim>\<open>new T[count]\<close> and leaves by its exception instead of returning null.
\<close>

theorem overflow_not_detected:
  "write_at 8 (8, 0x7ffff000, 0) 1 (- 1)
      (\<lparr>used = 1, capacity = 8, iter = 0, capacity_chunk_size = 8,
        vfile = \<lparr>fd = 3, flags = 0, mode = 0, fd_error = False\<rparr>, vec_error = False\<rparr>,
       \<lparr>f_offset = 0, f_length = 64\<rparr>)
    = (None,
       \<lparr>used = 1, capacity = 8, iter = 0, capacity_chunk_size = 8,
        vfile = \<lparr>fd = 3, flags = 0, mode = 0, fd_error = True\<rparr>, vec_error = True\<rparr>,
       \<lparr>f_offset = 0x7ffff008, f_length = 0x7ffff008\<rparr>)
   \<and> (1 :: size_t) + (- 1) < 1
   \<and> read_at 8 False (40, 0, 0) 5 (- 3)
      (\<lparr>used = 10, capacity = 16, iter = 0, capacity_chunk_size = 8,
        vfile = \<lparr>fd = 3, flags = 0, mode = 0, fd_error = False\<rparr>, vec_error = False\<rparr>,
       \<lparr>f_offset = 0, f_length = 128\<rparr>)
    = Throws
   \<and> (5 :: size_t) + (- 3) < 5"
  by (simp add: write_at_def read_at_def fd_seek_def fd_write_def sys_lseek_def sys_write_def
        word_sless_alt)

text \<open>
  Whatever the kernel answers to the three system calls, that \<^verbatim>\<open>write_at\<close> ends
  with the vector's error flag set: the byte count \<open>count * elem_size\<close> wraps to
  \<open>2^64 - 8\<close>, which no \<^verbatim>\<open>write\<close> returns as a non-negative \<^verbatim>\<open>ssize_t\<close>.
\<close>

lemma write_at_overflow_sets_error:
  "vec_error (fst (snd (write_at 8 (r1, r2, r3) 1 (- 1)
      (\<lparr>used = 1, capacity = 8, iter = 0, capacity_chunk_size = 8,
        vfile = \<lparr>fd = 3, flags = 0, mode = 0, fd_error = False\<rparr>, vec_error = False\<rparr>,
       k))))"
proof -
  have neg: "(- 8 :: 64 word) <s 0" by (simp add: word_sless_alt)
  show ?thesis
    using neg
    by (auto simp: write_at_def fd_seek_def fd_write_def split: prod.splits if_splits)
qed

section \<open>Results about the volume\<close>

lemma unfinished_entry_row: "unfinished_entry (unfinished_row e) = e"
  by (cases e) (simp add: unfinished_entry_def unfinished_row_def)

lemma insert_unfinished_rows:
  "distinct (map fst (m0 @ m)) \<Longrightarrow>
   insert_unfinished (map unfinished_row m) m0 = (True, m0 @ m)"
proof (induction m arbitrary: m0)
  case Nil
  then show ?case by simp
next
  case (Cons e m)
  obtain key loc where e: "e = (key, loc)" by (cases e)
  from Cons.prems have fresh: "key \<notin> set (map fst m0)"
    and d: "distinct (map fst ((m0 @ [e]) @ m))"
    by (auto simp: e)
  have "insert_unfinished (map unfinished_row (e # m)) m0
          = insert_unfinished (map unfinished_row m) (m0 @ [e])"
    using fresh unfinished_entry_row [of e] by (simp add: emplace_def e)
  also have "\<dots> = (True, (m0 @ [e]) @ m)" by (rule Cons.IH [OF d])
  finally show ?case by simp
qed

text \<open>
  C8. The row \<^verbatim>\<open>write_current_config\<close> builds from an entry of the map, decoded the
  way \<^verbatim>\<open>load_config\<close> decodes a row, is the entry again (key, file index, current
  and end), whatever \<open>current\<close> and \<open>end\<close> are. Hence: when \<^verbatim>\<open>write_current_config\<close>
  has written the sidecar without an error, the codec reads back what was written, the
  config has one block file and one record file, and the sidecar is shorter than
  \<open>2^63\<close> bytes, then \<^verbatim>\<open>load_config\<close> on a volume with no unfinished records, reading
  that sidecar in full, succeeds and leaves it with exactly the entries the first
  volume had.
\<close>

theorem reopen_reports_same_unfinished:
  fixes vol :: "('i, 'x, 'w::len word) volume"
    and e :: "'i record_id \<times> ('x, 'w word) write_loc"
  assumes wr: "write_current_config to_bytes my_general_info rs sidecar vol
                 = Returns (vol', sidecar')"
    and clean: "\<not> vol_error vol'"
    and codec: "from_bytes
          (to_bytes my_general_info (data_sections (config vol)) (record_sections (config vol))
             (block_sections (config vol)) (map unfinished_row (unfinished_records vol)))
        = Some \<lparr>info = my_general_info, blockfiles = block_sections (config vol),
                 recordfiles = record_sections (config vol),
                 datafiles = data_sections (config vol),
                 unfinished = map unfinished_row (unfinished_records vol)\<rparr>"
    and one: "length (cfg_blockfiles (config vol)) = 1" "length (cfg_recordfiles (config vol)) = 1"
    and keys: "distinct (map fst (unfinished_records vol))"
    and len: "length sidecar' < 2 ^ 63"
    and fresh: "unfinished_records vol0 = []"
  shows "unfinished_entry (unfinished_row e) = e
       \<and> (\<exists>vol1. load_config from_bytes my_general_info volume_config_of
              (word_of_nat (length sidecar'), 0, word_of_nat (length sidecar'), sidecar') vol0
            = Returns (True, vol1)
          \<and> set (unfinished_records vol1) = set (unfinished_records vol)
          \<and> distinct (map fst (unfinished_records vol1)))"
proof -
  obtain r1 r2 r3 where rs: "rs = (r1, r2, r3)" by (cases rs)
  let ?bytes = "to_bytes my_general_info (data_sections (config vol))
      (record_sections (config vol)) (block_sections (config vol))
      (map unfinished_row (unfinished_records vol))"
  have written: "sidecar' = ?bytes \<and> sidecar' \<noteq> []"
    using wr clean unfolding write_current_config_def rs Let_def
    by (auto split: if_splits)
  have l64: "length sidecar' < 2 ^ 64" using len by simp
  have un: "unat (word_of_nat (length sidecar') :: 64 word) = length sidecar'"
    using l64 by (simp add: unat_of_nat)
  have nz: "(word_of_nat (length sidecar') :: 64 word) \<noteq> 0"
    using un written by (metis length_0_conv unat_0)
  have pos: "\<not> (word_of_nat (length sidecar') :: 64 word) <s 0"
  proof -
    have "sint (word_of_nat (length sidecar') :: 64 word) = int (length sidecar')"
      using len by (simp add: signed_of_nat signed_take_bit_int_eq_self)
    then show ?thesis by (simp add: word_sless_alt)
  qed
  have ins: "insert_unfinished (map unfinished_row (unfinished_records vol))
               (unfinished_records vol0) = (True, unfinished_records vol)"
    using insert_unfinished_rows [of "[]" "unfinished_records vol"] keys fresh by simp
  have parsed: "from_bytes sidecar'
        = Some \<lparr>info = my_general_info, blockfiles = block_sections (config vol),
                 recordfiles = record_sections (config vol),
                 datafiles = data_sections (config vol),
                 unfinished = map unfinished_row (unfinished_records vol)\<rparr>"
    using codec written by simp
  have one': "length (block_sections (config vol)) = 1" "length (record_sections (config vol)) = 1"
    using one by (simp_all add: block_sections_def record_sections_def)
  show ?thesis
    using nz pos parsed one' ins keys
    by (simp add: load_config_def unfinished_entry_row)
qed

text \<open>
  The theorem on the sample volume, with a codec that maps it to three bytes and back:
  writing succeeds, loading into the fresh volume succeeds and gives the sample
  volume's entry.
\<close>

theorem reopen_reports_same_unfinished_witness:
  "write_current_config (\<lambda>i d r b u. [1, 2, 3]) sample_sizes (0, 0, 3) [] sample_volume
     = Returns (sample_volume, [1, 2, 3])
   \<and> load_config (\<lambda>bytes. Some (sample_loaded [sample_row 1500000 64000])) sample_sizes
        sample_volume_config (3, 0, 3, [1, 2, 3]) fresh_volume
     = Returns (True, sample_volume)
   \<and> unfinished_entry (unfinished_row
        (\<lparr>VolSessionId = 1 :: 32 word, VolSessionTime = 1700000000, FileIndex = 42, Stream = 1\<rparr>,
         \<lparr>file_index = 0 :: 32 word, current = 1500000 :: 64 word, loc_end = 1564000\<rparr>))
     = (\<lparr>VolSessionId = 1, VolSessionTime = 1700000000, FileIndex = 42, Stream = 1\<rparr>,
        \<lparr>file_index = 0, current = 1500000, loc_end = 1564000\<rparr>)"
proof -
  let ?fb = "\<lambda>bytes :: byte list. Some (sample_loaded [sample_row 1500000 64000])"
  have wr: "write_current_config (\<lambda>i d r b u. [1, 2, 3]) sample_sizes (0, 0, 3) [] sample_volume
     = Returns (sample_volume, [1, 2, 3])"
    by (simp add: write_current_config_def)
  have clean: "\<not> vol_error sample_volume" by (simp add: sample_volume_def)
  have codec: "?fb ((\<lambda>i d r b u. [1, 2, 3]) sample_sizes (data_sections (config sample_volume))
           (record_sections (config sample_volume)) (block_sections (config sample_volume))
           (map unfinished_row (unfinished_records sample_volume)))
        = Some \<lparr>info = sample_sizes, blockfiles = block_sections (config sample_volume),
                 recordfiles = record_sections (config sample_volume),
                 datafiles = data_sections (config sample_volume),
                 unfinished = map unfinished_row (unfinished_records sample_volume)\<rparr>"
    by (simp add: sample_loaded_def sample_row_def sample_volume_def block_sections_def
          record_sections_def data_sections_def unfinished_row_def)
  have one: "length (cfg_blockfiles (config sample_volume)) = 1"
    "length (cfg_recordfiles (config sample_volume)) = 1"
    by (simp_all add: sample_volume_def)
  have keys: "distinct (map fst (unfinished_records sample_volume))"
    by (simp add: sample_volume_def)
  have len: "length [1 :: byte, 2, 3] < 2 ^ 63" by simp
  have fresh: "unfinished_records fresh_volume = []" by (simp add: fresh_volume_def)
  note t = reopen_reports_same_unfinished [OF wr clean codec one keys len fresh,
      where e = "(\<lparr>VolSessionId = 1, VolSessionTime = 1700000000, FileIndex = 42, Stream = 1\<rparr>,
         \<lparr>file_index = 0, current = 1500000, loc_end = 1564000\<rparr>)"
        and volume_config_of = sample_volume_config]
  have ld: "load_config ?fb sample_sizes
        sample_volume_config (3, 0, 3, [1, 2, 3]) fresh_volume
     = Returns (True, sample_volume)"
    by (simp add: load_config_def sample_loaded_def sample_row_def sample_sizes_def
          fresh_volume_def sample_volume_def sample_volume_config_def unfinished_entry_def
          emplace_def word_sless_alt)
  show ?thesis using wr ld t by simp
qed

text \<open>
  A failed \<^verbatim>\<open>load_config\<close> never replaces the config, the config file or the error
  flag, and it leaves the map alone when it fails before the loop over the rows.
\<close>

lemma load_config_failure_frame:
  assumes "load_config from_bytes sizes volume_config_of env vol = Returns (False, vol')"
  shows "config vol' = config vol \<and> configfile vol' = configfile vol
       \<and> vol_error vol' = vol_error vol"
  using assms
  by (auto simp: load_config_def split: prod.splits if_splits option.splits)

lemma load_config_parse_failure:
  assumes "from_bytes buf = None"
    and "load_config from_bytes sizes volume_config_of (config_end, config_start, rd, buf) vol
           = Returns (ok, vol')"
  shows "\<not> ok \<and> vol' = vol"
  using assms
  by (auto simp: load_config_def split: if_splits)

text \<open>
  C1 (a failed \<^verbatim>\<open>load_config\<close> and the map of unfinished records). The sidecar
  parses to a config whose table of unfinished rows holds the same key twice. On the
  fresh volume, whose map is empty, \<^verbatim>\<open>load_config\<close> inserts the first row, finds
  the second one's key present and returns false: the map is left with the first
  row's entry, and is not what it was before the call.
\<close>

theorem load_config_partial_insert:
  "load_config (sample_from_bytes [sample_row 1500000 64000, sample_row 1600000 1000])
     sample_sizes sample_volume_config (3, 0, 3, [1, 2, 3]) fresh_volume
   = Returns (False, fresh_volume
       \<lparr>unfinished_records :=
          [(\<lparr>VolSessionId = 1, VolSessionTime = 1700000000, FileIndex = 42, Stream = 1\<rparr>,
            \<lparr>file_index = 0, current = 1500000, loc_end = 1564000\<rparr>)]\<rparr>)
   \<and> unfinished_records fresh_volume = []"
  by (simp add: load_config_def sample_from_bytes_def sample_loaded_def sample_row_def
        sample_sizes_def fresh_volume_def unfinished_entry_def emplace_def word_sless_alt)

text \<open>
  The same evaluation read as a change of state: the failed call returns a volume whose
  map differs from the one it was given.
\<close>

theorem load_config_partial_insert_witness:
  "\<exists>vol'. load_config
       (sample_from_bytes [sample_row 1500000 64000, sample_row 1600000 1000])
       sample_sizes sample_volume_config (3, 0, 3, [1, 2, 3]) fresh_volume
     = Returns (False, vol')
   \<and> unfinished_records vol' \<noteq> unfinished_records fresh_volume"
  using load_config_partial_insert by simp

section \<open>Results about the channel\<close>

subsection \<open>Positions and the circular buffer\<close>

lemma unat_wrapping_inc:
  assumes "unat x < unat m"
  shows "unat (wrapping_inc x m) = (unat x + 1) mod unat m"
proof -
  have "unat m < 2 ^ LENGTH(64)" by (rule unsigned_less)
  then have lt: "unat x + 1 < 2 ^ LENGTH(64)"
    using assms by linarith
  have inc: "unat (x + 1) = unat x + 1"
    using lt by (simp add: unat_add_lem [THEN iffD1])
  show ?thesis
  proof (cases "x + 1 = m")
    case True
    then have "unat x + 1 = unat m" using inc by simp
    then show ?thesis using True by (simp add: wrapping_inc_def)
  next
    case False
    then have "unat x + 1 \<noteq> unat m" using inc by (metis unsigned_word_eqI)
    then have "unat x + 1 < unat m" using assms by simp
    then show ?thesis using False inc by (simp add: wrapping_inc_def)
  qed
qed

lemma unat_succ_below:
  fixes n c :: size_t
  assumes "unat n < unat c"
  shows "unat (n + 1) = unat n + 1"
proof -
  have "unat c < 2 ^ LENGTH(64)" by (rule unsigned_less)
  then have "unat n + 1 < 2 ^ LENGTH(64)"
    using assms by linarith
  then show ?thesis by (simp add: unat_add_lem [THEN iffD1])
qed

lemma unat_pred_pos:
  fixes n :: size_t
  assumes "0 < unat n"
  shows "unat (n - 1) = unat n - 1"
  using assms by (simp add: unat_sub word_le_nat_alt)

lemma word_pos_unat: "(0 < (n :: size_t)) = (0 < unat n)"
  by (simp add: word_less_nat_alt)

lemma ring_length [simp]: "length (ring C r n xs) = n"
  by (simp add: ring_def)

lemma ring_zero [simp]: "ring C r 0 xs = []"
  by (simp add: ring_def)

lemma mod_shift_le:
  fixes C r x y :: nat
  assumes "x \<le> y" "y < C" "(r + x) mod C = (r + y) mod C"
  shows "x = y"
proof (rule ccontr)
  assume "x \<noteq> y"
  then have pos: "0 < y - x" using assms(1) by simp
  have "C dvd (r + y) - (r + x)"
    using assms mod_eq_dvd_iff_nat [of "r + x" "r + y" C] by simp
  then have "C dvd y - x" by simp
  moreover have "y - x < C" using assms(2) by simp
  ultimately show False using pos nat_dvd_not_less by blast
qed

lemma mod_shift_neq:
  fixes C r a b :: nat
  assumes "a < C" "b < C" "a \<noteq> b"
  shows "(r + a) mod C \<noteq> (r + b) mod C"
proof (cases "a \<le> b")
  case True
  then show ?thesis using assms mod_shift_le [of a b C r] by blast
next
  case False
  then have "b \<le> a" by simp
  then show ?thesis using assms mod_shift_le [of b a C r] by metis
qed

lemma ring_update_outside:
  assumes "n \<le> a" "a < C"
  shows "ring C r n (xs[(r + a) mod C := y]) = ring C r n xs"
  unfolding ring_def
proof (rule map_cong [OF refl])
  fix k assume "k \<in> set [0..<n]"
  then have "k < a" "k < C" using assms by auto
  then have "(r + k) mod C \<noteq> (r + a) mod C"
    using assms mod_shift_neq [of k C a r] by simp
  then show "xs[(r + a) mod C := y] ! ((r + k) mod C) = xs ! ((r + k) mod C)"
    by simp
qed

lemma ring_snoc:
  assumes "n < C" "length xs = C"
  shows "ring C r (Suc n) (xs[(r + n) mod C := v]) = ring C r n xs @ [v]"
proof -
  have "(r + n) mod C < length xs" using assms by simp
  then have "xs[(r + n) mod C := v] ! ((r + n) mod C) = v" by simp
  moreover have "ring C r n (xs[(r + n) mod C := v]) = ring C r n xs"
    using assms by (intro ring_update_outside) simp_all
  ultimately show ?thesis
    by (simp add: ring_def)
qed

lemma ring_shift: "ring C ((r + 1) mod C) n xs = map (\<lambda>k. xs ! ((r + Suc k) mod C)) [0..<n]"
proof -
  have "((r + 1) mod C + k) mod C = (r + Suc k) mod C" for k
    by (simp add: mod_add_left_eq)
  then show ?thesis by (simp add: ring_def)
qed

lemma ring_pop:
  assumes "0 < n" "r < C"
  shows "ring C r n xs = xs ! r # ring C ((r + 1) mod C) (n - 1) xs"
proof -
  obtain m where n: "n = Suc m" using assms by (cases n) auto
  have "[0..<Suc m] = 0 # map Suc [0..<m]"
    by (simp add: upt_conv_Cons map_Suc_upt del: upt_Suc)
  then have "ring C r (Suc m) xs = xs ! (r mod C) # map (\<lambda>k. xs ! ((r + Suc k) mod C)) [0..<m]"
    by (simp add: ring_def comp_def del: upt_Suc)
  then show ?thesis using assms n ring_shift [of C r m xs] by simp
qed

lemma ring_update_head:
  assumes "n < C" "r < C"
  shows "ring C ((r + 1) mod C) n (xs[r := y]) = ring C ((r + 1) mod C) n xs"
  unfolding ring_shift
proof (rule map_cong [OF refl])
  fix k assume "k \<in> set [0..<n]"
  then have "Suc k < C" using assms by auto
  then have "(r + Suc k) mod C \<noteq> (r + 0) mod C"
    using assms mod_shift_neq [of "Suc k" C 0 r] by simp
  then have "(r + Suc k) mod C \<noteq> r" using assms by simp
  then show "xs[r := y] ! ((r + Suc k) mod C) = xs ! ((r + Suc k) mod C)"
    by simp
qed

subsection \<open>The invariant, call by call\<close>

lemma chan_invD:
  assumes "chan_inv p (ip, op, h)"
  obtains d where "h p = Some d"
    and "i_shared ip = Some p" and "o_shared op = Some p"
    and "i_capacity ip = d_capacity d" and "o_capacity op = d_capacity d"
    and "0 < unat (d_capacity d)" and "length (storage d) = unat (d_capacity d)"
    and "unat (d_size d) \<le> unat (d_capacity d)"
    and "unat (read_pos op) < unat (d_capacity d)"
    and "unat (write_pos ip) < unat (d_capacity d)"
    and "unat (write_pos ip) = (unat (read_pos op) + unat (d_size d)) mod unat (d_capacity d)"
    and "o_closed op \<or> unat (o_old_size op) \<le> unat (d_size d)"
    and "i_closed ip \<or> unat (d_size d) \<le> unat (i_old_size ip)"
    and "i_closed ip = (\<not> in_alive d)" and "o_closed op = (\<not> out_alive d)"
    and "\<not> mutex_busy d"
  using assms by (auto simp: chan_inv_def split: option.splits)

lemma chan_invI:
  assumes "h p = Some d"
    and "i_shared ip = Some p" and "o_shared op = Some p"
    and "i_capacity ip = d_capacity d" and "o_capacity op = d_capacity d"
    and "0 < unat (d_capacity d)" and "length (storage d) = unat (d_capacity d)"
    and "unat (d_size d) \<le> unat (d_capacity d)"
    and "unat (read_pos op) < unat (d_capacity d)"
    and "unat (write_pos ip) < unat (d_capacity d)"
    and "unat (write_pos ip) = (unat (read_pos op) + unat (d_size d)) mod unat (d_capacity d)"
    and "o_closed op \<or> unat (o_old_size op) \<le> unat (d_size d)"
    and "i_closed ip \<or> unat (d_size d) \<le> unat (i_old_size ip)"
    and "i_closed ip = (\<not> in_alive d)" and "o_closed op = (\<not> out_alive d)"
    and "\<not> mutex_busy d"
  shows "chan_inv p (ip, op, h)"
  using assms by (simp add: chan_inv_def)

lemma buffered_eq:
  "h p = Some d \<Longrightarrow>
   buffered p (ip, op, h)
     = ring (unat (d_capacity d)) (unat (read_pos op)) (unat (d_size d)) (storage d)"
  by (simp add: buffered_def)

text \<open>The two puts share everything but the cached size of a producer that closes.\<close>

lemma put_publish:
  fixes v :: 'a and d :: "'a data"
  assumes inv: "chan_inv p (ip, op, h)" and hp: "h p = Some d"
    and room: "unat (d_size d) < unat (d_capacity d)"
  defines "ip' \<equiv> ip\<lparr>i_old_size := d_size d + 1,
                     write_pos := wrapping_inc (write_pos ip) (i_capacity ip)\<rparr>"
  defines "h' \<equiv> h(p \<mapsto> d\<lparr>storage := (storage d)[unat (write_pos ip) := v],
                          d_size := d_size d + 1\<rparr>)"
  shows "chan_inv p (ip', op, h')"
    and "buffered p (ip', op, h') = buffered p (ip, op, h) @ [v]"
proof -
  from inv obtain d0 where d0: "h p = Some d0"
    and sh: "i_shared ip = Some p" "o_shared op = Some p"
    and cap: "i_capacity ip = d_capacity d0" "o_capacity op = d_capacity d0"
    and cpos: "0 < unat (d_capacity d0)" and len: "length (storage d0) = unat (d_capacity d0)"
    and rp: "unat (read_pos op) < unat (d_capacity d0)"
    and wp: "unat (write_pos ip) < unat (d_capacity d0)"
    and wr: "unat (write_pos ip) = (unat (read_pos op) + unat (d_size d0)) mod unat (d_capacity d0)"
    and oc: "o_closed op \<or> unat (o_old_size op) \<le> unat (d_size d0)"
    and al: "i_closed ip = (\<not> in_alive d0)" "o_closed op = (\<not> out_alive d0)"
    and mx: "\<not> mutex_busy d0"
    by (rule chan_invD)
  have dd: "d0 = d" using d0 hp by simp
  note facts = sh cap cpos len rp wp wr oc al mx
  let ?C = "unat (d_capacity d)"
  have sz: "unat (d_size d + 1) = unat (d_size d) + 1"
    using room by (rule unat_succ_below)
  have winc: "unat (wrapping_inc (write_pos ip) (d_capacity d)) = (unat (write_pos ip) + 1) mod ?C"
    using wp dd by (simp add: unat_wrapping_inc)
  have w': "(unat (write_pos ip) + 1) mod ?C = (unat (read_pos op) + (unat (d_size d) + 1)) mod ?C"
    using wr dd by (simp add: mod_Suc_eq add.assoc)
  show "chan_inv p (ip', op, h')"
    using facts [unfolded dd] room sz winc w' cpos
    by (intro chan_invI [where d = "d\<lparr>storage := (storage d)[unat (write_pos ip) := v],
                          d_size := d_size d + 1\<rparr>"])
       (auto simp: ip'_def h'_def)
  show "buffered p (ip', op, h') = buffered p (ip, op, h) @ [v]"
    using ring_snoc [of "unat (d_size d)" ?C "storage d" "unat (read_pos op)" v]
      facts [unfolded dd] room sz hp
    by (simp add: buffered_def ip'_def h'_def)
qed


lemma put_refused:
  fixes v :: 'a and d :: "'a data"
  assumes inv: "chan_inv p (ip, op, h)" and hp: "h p = Some d"
    and dead: "\<not> out_alive d"
    and d1: "d1 = d \<or> (unat (d_size d) < unat (d_capacity d)
               \<and> d1 = d\<lparr>storage := (storage d)[unat (write_pos ip) := v]\<rparr>)"
  defines "h' \<equiv> h(p \<mapsto> d1\<lparr>in_alive := False\<rparr>)"
  shows "chan_inv p (ip\<lparr>i_old_size := x, i_closed := True\<rparr>, op, h')"
    and "chan_inv p (ip\<lparr>i_closed := True\<rparr>, op, h')"
    and "buffered p (ip'', op, h') = buffered p (ip, op, h)"
proof -
  from inv obtain d0 where d0: "h p = Some d0"
    and sh: "i_shared ip = Some p" "o_shared op = Some p"
    and cap: "i_capacity ip = d_capacity d0" "o_capacity op = d_capacity d0"
    and cpos: "0 < unat (d_capacity d0)" and len: "length (storage d0) = unat (d_capacity d0)"
    and sz: "unat (d_size d0) \<le> unat (d_capacity d0)"
    and rp: "unat (read_pos op) < unat (d_capacity d0)"
    and wp: "unat (write_pos ip) < unat (d_capacity d0)"
    and wr: "unat (write_pos ip) = (unat (read_pos op) + unat (d_size d0)) mod unat (d_capacity d0)"
    and oc: "o_closed op \<or> unat (o_old_size op) \<le> unat (d_size d0)"
    and al: "i_closed ip = (\<not> in_alive d0)" "o_closed op = (\<not> out_alive d0)"
    and mx: "\<not> mutex_busy d0"
    by (rule chan_invD)
  have dd: "d0 = d" using d0 hp by simp
  note facts = sh cap cpos len sz rp wp wr oc al mx
  show "chan_inv p (ip\<lparr>i_old_size := x, i_closed := True\<rparr>, op, h')"
    using facts [unfolded dd] d1 dead
    by (intro chan_invI [where d = "d1\<lparr>in_alive := False\<rparr>"]) (auto simp: h'_def)
  show "chan_inv p (ip\<lparr>i_closed := True\<rparr>, op, h')"
    using facts [unfolded dd] d1 dead
    by (intro chan_invI [where d = "d1\<lparr>in_alive := False\<rparr>"]) (auto simp: h'_def)
  show "buffered p (ip'', op, h') = buffered p (ip, op, h)"
  proof -
    have "ring (unat (d_capacity d)) (unat (read_pos op)) (unat (d_size d)) (storage d1)
        = ring (unat (d_capacity d)) (unat (read_pos op)) (unat (d_size d)) (storage d)"
      using d1 wr [unfolded dd]
        ring_update_outside [of "unat (d_size d)" "unat (d_size d)" "unat (d_capacity d)"
          "unat (read_pos op)" "storage d" v]
      by auto
    then show ?thesis using hp d1 by (auto simp: buffered_def h'_def)
  qed
qed

lemma in_put_eval:
  fixes v :: 'a and d :: "'a data"
  assumes inv: "chan_inv p (ip, op, h)" and hp: "h p = Some d" and open': "\<not> i_closed ip"
  shows "in_put v ip h =
     (if \<not> (d_size d < d_capacity d \<or> \<not> out_alive d) then Blocks
      else if out_alive d then
        Returns (True,
          ip\<lparr>i_old_size := d_size d + 1,
             write_pos := wrapping_inc (write_pos ip) (i_capacity ip)\<rparr>,
          h(p \<mapsto> d\<lparr>storage := (storage d)[unat (write_pos ip) := v],
                     d_size := d_size d + 1\<rparr>))
      else Returns (False, ip\<lparr>i_old_size := i_capacity ip, i_closed := True\<rparr>,
             h(p \<mapsto> (if i_old_size ip < i_capacity ip
                       then d\<lparr>storage := (storage d)[unat (write_pos ip) := v]\<rparr>
                       else d)\<lparr>in_alive := False\<rparr>)))"
proof -
  from inv obtain d0 where d0: "h p = Some d0"
    and sh: "i_shared ip = Some p"
    and cap: "i_capacity ip = d_capacity d0"
    and len: "length (storage d0) = unat (d_capacity d0)"
    and wp: "unat (write_pos ip) < unat (d_capacity d0)"
    and mx: "\<not> mutex_busy d0"
    by (rule chan_invD)
  have dd: "d0 = d" using d0 hp by simp
  show ?thesis
    using open' hp sh cap [unfolded dd] len [unfolded dd] wp [unfolded dd] mx [unfolded dd]
    by (simp add: in_put_def deref_def set_slot_def obind_def)
qed

lemma in_put_step:
  fixes v :: 'a
  assumes inv: "chan_inv p (ip, op, h)"
  shows "in_put v ip h = Blocks
       \<or> (\<exists>b ip' h'. in_put v ip h = Returns (b, ip', h') \<and> chan_inv p (ip', op, h')
            \<and> buffered p (ip', op, h') = buffered p (ip, op, h) @ (if b then [v] else []))"
proof (cases "i_closed ip")
  case True
  then have "in_put v ip h = Returns (False, ip, h)" by (simp add: in_put_def)
  then show ?thesis using inv by auto
next
  case False
  from inv obtain d where hp: "h p = Some d"
    and cap: "i_capacity ip = d_capacity d"
    and ic: "i_closed ip \<or> unat (d_size d) \<le> unat (i_old_size ip)"
    by (rule chan_invD)
  note ev = in_put_eval [OF inv hp False, of v]
  show ?thesis
  proof (cases "out_alive d")
    case True
    show ?thesis
    proof (cases "d_size d < d_capacity d")
      case True
      then have room: "unat (d_size d) < unat (d_capacity d)" by (simp add: word_less_nat_alt)
      show ?thesis
        using ev \<open>out_alive d\<close> True put_publish [OF inv hp room, of v] by auto
    next
      case False
      then show ?thesis using ev \<open>out_alive d\<close> by simp
    qed
  next
    case dead: False
    let ?d1 = "if i_old_size ip < i_capacity ip
               then d\<lparr>storage := (storage d)[unat (write_pos ip) := v]\<rparr> else d"
    have d1: "?d1 = d \<or> (unat (d_size d) < unat (d_capacity d)
               \<and> ?d1 = d\<lparr>storage := (storage d)[unat (write_pos ip) := v]\<rparr>)"
      using ic False cap by (auto simp: word_less_nat_alt)
    show ?thesis
      using ev dead put_refused(1,3) [OF inv hp dead d1] by auto
  qed
qed

lemma in_put_rvalue_eval:
  fixes v :: 'a and d :: "'a data"
  assumes inv: "chan_inv p (ip, op, h)" and hp: "h p = Some d" and open': "\<not> i_closed ip"
  shows "in_put_rvalue v ip h =
     (if \<not> (d_size d < d_capacity d \<or> \<not> out_alive d) then Blocks
      else if out_alive d then
        Returns (True,
          ip\<lparr>i_old_size := d_size d + 1,
             write_pos := wrapping_inc (write_pos ip) (i_capacity ip)\<rparr>,
          h(p \<mapsto> d\<lparr>storage := (storage d)[unat (write_pos ip) := v],
                     d_size := d_size d + 1\<rparr>))
      else Returns (False, ip\<lparr>i_closed := True\<rparr>,
             h(p \<mapsto> (if i_old_size ip < i_capacity ip
                       then d\<lparr>storage := (storage d)[unat (write_pos ip) := v]\<rparr>
                       else d)\<lparr>in_alive := False\<rparr>)))"
proof -
  from inv obtain d0 where d0: "h p = Some d0"
    and sh: "i_shared ip = Some p"
    and cap: "i_capacity ip = d_capacity d0"
    and len: "length (storage d0) = unat (d_capacity d0)"
    and wp: "unat (write_pos ip) < unat (d_capacity d0)"
    and mx: "\<not> mutex_busy d0"
    by (rule chan_invD)
  have dd: "d0 = d" using d0 hp by simp
  show ?thesis
    using open' hp sh cap [unfolded dd] len [unfolded dd] wp [unfolded dd] mx [unfolded dd]
    by (simp add: in_put_rvalue_def deref_def set_slot_def obind_def)
qed

lemma in_put_rvalue_step:
  fixes v :: 'a
  assumes inv: "chan_inv p (ip, op, h)"
  shows "in_put_rvalue v ip h = Blocks
       \<or> (\<exists>b ip' h'. in_put_rvalue v ip h = Returns (b, ip', h') \<and> chan_inv p (ip', op, h')
            \<and> buffered p (ip', op, h') = buffered p (ip, op, h) @ (if b then [v] else []))"
proof (cases "i_closed ip")
  case True
  then have "in_put_rvalue v ip h = Returns (False, ip, h)" by (simp add: in_put_rvalue_def)
  then show ?thesis using inv by auto
next
  case False
  from inv obtain d where hp: "h p = Some d"
    and cap: "i_capacity ip = d_capacity d"
    and ic: "i_closed ip \<or> unat (d_size d) \<le> unat (i_old_size ip)"
    by (rule chan_invD)
  note ev = in_put_rvalue_eval [OF inv hp False, of v]
  show ?thesis
  proof (cases "out_alive d")
    case True
    show ?thesis
    proof (cases "d_size d < d_capacity d")
      case True
      then have room: "unat (d_size d) < unat (d_capacity d)" by (simp add: word_less_nat_alt)
      show ?thesis
        using ev \<open>out_alive d\<close> True put_publish [OF inv hp room, of v] by auto
    next
      case False
      then show ?thesis using ev \<open>out_alive d\<close> by simp
    qed
  next
    case dead: False
    let ?d1 = "if i_old_size ip < i_capacity ip
               then d\<lparr>storage := (storage d)[unat (write_pos ip) := v]\<rparr> else d"
    have d1: "?d1 = d \<or> (unat (d_size d) < unat (d_capacity d)
               \<and> ?d1 = d\<lparr>storage := (storage d)[unat (write_pos ip) := v]\<rparr>)"
      using ic False cap by (auto simp: word_less_nat_alt)
    show ?thesis
      using ev dead put_refused(2,3) [OF inv hp dead d1] by auto
  qed
qed

lemma wait_till_empty_step:
  assumes inv: "chan_inv p (ip, op, h)"
  shows "wait_till_empty ip h = Blocks
       \<or> (\<exists>ip' h'. wait_till_empty ip h = Returns (ip', h') \<and> chan_inv p (ip', op, h')
            \<and> buffered p (ip', op, h') = buffered p (ip, op, h))"
proof -
  from inv obtain d where hp: "h p = Some d"
    and sh: "i_shared ip = Some p" "o_shared op = Some p"
    and cap: "i_capacity ip = d_capacity d" "o_capacity op = d_capacity d"
    and cpos: "0 < unat (d_capacity d)" and len: "length (storage d) = unat (d_capacity d)"
    and sz: "unat (d_size d) \<le> unat (d_capacity d)"
    and rp: "unat (read_pos op) < unat (d_capacity d)"
    and wp: "unat (write_pos ip) < unat (d_capacity d)"
    and wr: "unat (write_pos ip) = (unat (read_pos op) + unat (d_size d)) mod unat (d_capacity d)"
    and oc: "o_closed op \<or> unat (o_old_size op) \<le> unat (d_size d)"
    and al: "i_closed ip = (\<not> in_alive d)" "o_closed op = (\<not> out_alive d)"
    and mx: "\<not> mutex_busy d"
    by (rule chan_invD)
  note facts = sh cap cpos len sz rp wp wr oc al mx
  have ev: "wait_till_empty ip h =
     (if \<not> (d_size d = 0 \<or> \<not> out_alive d) then Blocks
      else if \<not> out_alive d then
        Returns (ip\<lparr>i_old_size := d_size d, i_closed := True\<rparr>, h(p \<mapsto> d\<lparr>in_alive := False\<rparr>))
      else Returns (ip\<lparr>i_old_size := d_size d\<rparr>, h))"
    using hp sh mx by (simp add: wait_till_empty_def deref_def obind_def)
  have i1: "chan_inv p (ip\<lparr>i_old_size := d_size d, i_closed := True\<rparr>, op,
              h(p \<mapsto> d\<lparr>in_alive := False\<rparr>))" if "\<not> out_alive d"
    using facts that by (intro chan_invI [where d = "d\<lparr>in_alive := False\<rparr>"]) auto
  have i2: "chan_inv p (ip\<lparr>i_old_size := d_size d\<rparr>, op, h)"
    using facts hp by (intro chan_invI [where d = d]) auto
  show ?thesis
    using ev i1 i2 hp by (auto simp: buffered_def)
qed

lemma in_close_step:
  assumes inv: "chan_inv p (ip, op, h)"
  shows "\<exists>ip' h'. in_close ip h = Returns (ip', h') \<and> chan_inv p (ip', op, h')
            \<and> buffered p (ip', op, h') = buffered p (ip, op, h) \<and> i_closed ip'"
proof -
  from inv obtain d where hp: "h p = Some d"
    and sh: "i_shared ip = Some p" "o_shared op = Some p"
    and cap: "i_capacity ip = d_capacity d" "o_capacity op = d_capacity d"
    and cpos: "0 < unat (d_capacity d)" and len: "length (storage d) = unat (d_capacity d)"
    and sz: "unat (d_size d) \<le> unat (d_capacity d)"
    and rp: "unat (read_pos op) < unat (d_capacity d)"
    and wp: "unat (write_pos ip) < unat (d_capacity d)"
    and wr: "unat (write_pos ip) = (unat (read_pos op) + unat (d_size d)) mod unat (d_capacity d)"
    and oc: "o_closed op \<or> unat (o_old_size op) \<le> unat (d_size d)"
    and al: "i_closed ip = (\<not> in_alive d)" "o_closed op = (\<not> out_alive d)"
    and mx: "\<not> mutex_busy d"
    by (rule chan_invD)
  note facts = sh cap cpos len sz rp wp wr oc al mx
  have ev: "in_close ip h =
     (if i_closed ip then Returns (ip, h)
      else Returns (ip\<lparr>i_closed := True\<rparr>, h(p \<mapsto> d\<lparr>in_alive := False\<rparr>)))"
    using hp sh mx by (simp add: in_close_def deref_def obind_def)
  have i1: "chan_inv p (ip\<lparr>i_closed := True\<rparr>, op, h(p \<mapsto> d\<lparr>in_alive := False\<rparr>))"
    using facts by (intro chan_invI [where d = "d\<lparr>in_alive := False\<rparr>"]) auto
  show ?thesis
    using ev i1 inv hp by (auto simp: buffered_def)
qed

lemma out_close_step:
  assumes inv: "chan_inv p (ip, op, h)"
  shows "\<exists>op' h'. out_close op h = Returns (op', h') \<and> chan_inv p (ip, op', h')
            \<and> buffered p (ip, op', h') = buffered p (ip, op, h)"
proof -
  from inv obtain d where hp: "h p = Some d"
    and sh: "i_shared ip = Some p" "o_shared op = Some p"
    and cap: "i_capacity ip = d_capacity d" "o_capacity op = d_capacity d"
    and cpos: "0 < unat (d_capacity d)" and len: "length (storage d) = unat (d_capacity d)"
    and sz: "unat (d_size d) \<le> unat (d_capacity d)"
    and rp: "unat (read_pos op) < unat (d_capacity d)"
    and wp: "unat (write_pos ip) < unat (d_capacity d)"
    and wr: "unat (write_pos ip) = (unat (read_pos op) + unat (d_size d)) mod unat (d_capacity d)"
    and ic: "i_closed ip \<or> unat (d_size d) \<le> unat (i_old_size ip)"
    and al: "i_closed ip = (\<not> in_alive d)" "o_closed op = (\<not> out_alive d)"
    and mx: "\<not> mutex_busy d"
    by (rule chan_invD)
  note facts = sh cap cpos len sz rp wp wr ic al mx
  have ev: "out_close op h =
     (if o_closed op then Returns (op, h)
      else Returns (op\<lparr>o_closed := True\<rparr>, h(p \<mapsto> d\<lparr>out_alive := False\<rparr>)))"
    using hp sh mx by (simp add: out_close_def deref_def obind_def)
  have i1: "chan_inv p (ip, op\<lparr>o_closed := True\<rparr>, h(p \<mapsto> d\<lparr>out_alive := False\<rparr>))"
    using facts by (intro chan_invI [where d = "d\<lparr>out_alive := False\<rparr>"]) auto
  show ?thesis
    using ev i1 inv hp by (auto simp: buffered_def)
qed

lemma get_consume:
  fixes d :: "'a data" and y :: 'a
  assumes inv: "chan_inv p (ip, op, h)" and hp: "h p = Some d"
    and some: "0 < unat (d_size d)"
  defines "op' \<equiv> op\<lparr>o_old_size := d_size d - 1,
                     read_pos := wrapping_inc (read_pos op) (o_capacity op)\<rparr>"
  defines "h' \<equiv> h(p \<mapsto> d\<lparr>storage := (storage d)[unat (read_pos op) := y],
                          d_size := d_size d - 1\<rparr>)"
  shows "chan_inv p (ip, op', h')"
    and "buffered p (ip, op, h) = storage d ! unat (read_pos op) # buffered p (ip, op', h')"
proof -
  from inv obtain d0 where d0: "h p = Some d0"
    and sh: "i_shared ip = Some p" "o_shared op = Some p"
    and cap: "i_capacity ip = d_capacity d0" "o_capacity op = d_capacity d0"
    and cpos: "0 < unat (d_capacity d0)" and len: "length (storage d0) = unat (d_capacity d0)"
    and sz: "unat (d_size d0) \<le> unat (d_capacity d0)"
    and rp: "unat (read_pos op) < unat (d_capacity d0)"
    and wp: "unat (write_pos ip) < unat (d_capacity d0)"
    and wr: "unat (write_pos ip) = (unat (read_pos op) + unat (d_size d0)) mod unat (d_capacity d0)"
    and ic: "i_closed ip \<or> unat (d_size d0) \<le> unat (i_old_size ip)"
    and al: "i_closed ip = (\<not> in_alive d0)" "o_closed op = (\<not> out_alive d0)"
    and mx: "\<not> mutex_busy d0"
    by (rule chan_invD)
  have dd: "d0 = d" using d0 hp by simp
  note facts = sh cap cpos len sz rp wp wr ic al mx
  let ?C = "unat (d_capacity d)"
  let ?r = "unat (read_pos op)"
  let ?n = "unat (d_size d)"
  have szm: "unat (d_size d - 1) = ?n - 1"
    using some by (rule unat_pred_pos)
  have rinc: "unat (wrapping_inc (read_pos op) (d_capacity d)) = (?r + 1) mod ?C"
    using rp dd by (simp add: unat_wrapping_inc)
  have "(?r + ?n) mod ?C = ((?r + 1) + (?n - 1)) mod ?C"
    using some by simp
  also have "\<dots> = ((?r + 1) mod ?C + (?n - 1)) mod ?C"
    by (simp add: mod_add_left_eq)
  finally have w': "(?r + ?n) mod ?C = ((?r + 1) mod ?C + (?n - 1)) mod ?C" .
  show "chan_inv p (ip, op', h')"
    using facts [unfolded dd] some szm rinc w'
    by (intro chan_invI [where d = "d\<lparr>storage := (storage d)[unat (read_pos op) := y],
                          d_size := d_size d - 1\<rparr>"])
       (auto simp: op'_def h'_def)
  have "ring ?C ?r ?n (storage d) = storage d ! ?r # ring ?C ((?r + 1) mod ?C) (?n - 1) (storage d)"
    using some rp dd by (intro ring_pop) simp_all
  moreover have "ring ?C ((?r + 1) mod ?C) (?n - 1) ((storage d)[?r := y])
      = ring ?C ((?r + 1) mod ?C) (?n - 1) (storage d)"
    using some sz rp dd by (intro ring_update_head) simp_all
  ultimately show "buffered p (ip, op, h) = storage d ! ?r # buffered p (ip, op', h')"
    using hp facts [unfolded dd] szm rinc
    by (simp add: buffered_def op'_def h'_def)
qed

lemma out_shutdown:
  fixes d :: "'a data"
  assumes inv: "chan_inv p (ip, op, h)" and hp: "h p = Some d"
    and empty: "d_size d = 0"
  defines "op' \<equiv> op\<lparr>o_old_size := 0, o_closed := True\<rparr>"
  defines "h' \<equiv> h(p \<mapsto> d\<lparr>out_alive := False\<rparr>)"
  shows "chan_inv p (ip, op', h')"
    and "buffered p (ip, op', h') = buffered p (ip, op, h)"
proof -
  from inv obtain d0 where d0: "h p = Some d0"
    and sh: "i_shared ip = Some p" "o_shared op = Some p"
    and cap: "i_capacity ip = d_capacity d0" "o_capacity op = d_capacity d0"
    and cpos: "0 < unat (d_capacity d0)" and len: "length (storage d0) = unat (d_capacity d0)"
    and sz: "unat (d_size d0) \<le> unat (d_capacity d0)"
    and rp: "unat (read_pos op) < unat (d_capacity d0)"
    and wp: "unat (write_pos ip) < unat (d_capacity d0)"
    and wr: "unat (write_pos ip) = (unat (read_pos op) + unat (d_size d0)) mod unat (d_capacity d0)"
    and ic: "i_closed ip \<or> unat (d_size d0) \<le> unat (i_old_size ip)"
    and al: "i_closed ip = (\<not> in_alive d0)" "o_closed op = (\<not> out_alive d0)"
    and mx: "\<not> mutex_busy d0"
    by (rule chan_invD)
  have dd: "d0 = d" using d0 hp by simp
  note facts = sh cap cpos len sz rp wp wr ic al mx
  show "chan_inv p (ip, op', h')"
    using facts [unfolded dd]
    by (intro chan_invI [where d = "d\<lparr>out_alive := False\<rparr>"]) (auto simp: op'_def h'_def)
  show "buffered p (ip, op', h') = buffered p (ip, op, h)"
    using hp by (simp add: buffered_def op'_def h'_def)
qed

lemma out_get_eval:
  fixes d :: "'a data"
  assumes inv: "chan_inv p (ip, op, h)" and hp: "h p = Some d" and open': "\<not> o_closed op"
  shows "out_get mf op h =
     (if d_size d > 0 then
        Returns (Some (storage d ! unat (read_pos op)),
          op\<lparr>o_old_size := d_size d - 1,
             read_pos := wrapping_inc (read_pos op) (o_capacity op)\<rparr>,
          h(p \<mapsto> d\<lparr>storage := (storage d)[unat (read_pos op)
                                    := mf (storage d ! unat (read_pos op))],
                     d_size := d_size d - 1\<rparr>))
      else if in_alive d then Blocks
      else Returns (None, op\<lparr>o_old_size := 0, o_closed := True\<rparr>,
             h(p \<mapsto> d\<lparr>out_alive := False\<rparr>)))"
    and "out_try_get mf op h =
     (if d_size d > 0 then
        Returns (Some (storage d ! unat (read_pos op)),
          op\<lparr>o_old_size := d_size d - 1,
             read_pos := wrapping_inc (read_pos op) (o_capacity op)\<rparr>,
          h(p \<mapsto> d\<lparr>storage := (storage d)[unat (read_pos op)
                                    := mf (storage d ! unat (read_pos op))],
                     d_size := d_size d - 1\<rparr>))
      else if in_alive d then Returns (None, op, h)
      else Returns (None, op\<lparr>o_old_size := 0, o_closed := True\<rparr>,
             h(p \<mapsto> d\<lparr>out_alive := False\<rparr>)))"
proof -
  from inv obtain d0 where d0: "h p = Some d0"
    and sh: "o_shared op = Some p"
    and len: "length (storage d0) = unat (d_capacity d0)"
    and rp: "unat (read_pos op) < unat (d_capacity d0)"
    and oc: "o_closed op \<or> unat (o_old_size op) \<le> unat (d_size d0)"
    and mx: "\<not> mutex_busy d0"
    by (rule chan_invD)
  have dd: "d0 = d" using d0 hp by simp
  have nofast: "\<not> 0 < o_old_size op" if "\<not> 0 < d_size d"
    using that oc open' dd by (simp add: word_less_nat_alt)
  have triv: "h(p \<mapsto> d) = h" using hp by (simp add: map_upd_triv)
  show "out_get mf op h =
     (if d_size d > 0 then
        Returns (Some (storage d ! unat (read_pos op)),
          op\<lparr>o_old_size := d_size d - 1,
             read_pos := wrapping_inc (read_pos op) (o_capacity op)\<rparr>,
          h(p \<mapsto> d\<lparr>storage := (storage d)[unat (read_pos op)
                                    := mf (storage d ! unat (read_pos op))],
                     d_size := d_size d - 1\<rparr>))
      else if in_alive d then Blocks
      else Returns (None, op\<lparr>o_old_size := 0, o_closed := True\<rparr>,
             h(p \<mapsto> d\<lparr>out_alive := False\<rparr>)))"
    using open' hp sh len [unfolded dd] rp [unfolded dd] nofast mx [unfolded dd]
    by (simp add: out_get_def deref_def take_slot_def obind_def)
  show "out_try_get mf op h =
     (if d_size d > 0 then
        Returns (Some (storage d ! unat (read_pos op)),
          op\<lparr>o_old_size := d_size d - 1,
             read_pos := wrapping_inc (read_pos op) (o_capacity op)\<rparr>,
          h(p \<mapsto> d\<lparr>storage := (storage d)[unat (read_pos op)
                                    := mf (storage d ! unat (read_pos op))],
                     d_size := d_size d - 1\<rparr>))
      else if in_alive d then Returns (None, op, h)
      else Returns (None, op\<lparr>o_old_size := 0, o_closed := True\<rparr>,
             h(p \<mapsto> d\<lparr>out_alive := False\<rparr>)))"
    using open' hp sh len [unfolded dd] rp [unfolded dd] nofast triv mx [unfolded dd]
    by (simp add: out_try_get_def deref_def take_slot_def obind_def)
qed

lemma out_get_step:
  assumes inv: "chan_inv p (ip, op, h)"
  shows "out_get mf op h = Blocks
       \<or> (\<exists>r op' h'. out_get mf op h = Returns (r, op', h') \<and> chan_inv p (ip, op', h')
            \<and> buffered p (ip, op, h)
                = (case r of None \<Rightarrow> [] | Some x \<Rightarrow> [x]) @ buffered p (ip, op', h'))"
proof (cases "o_closed op")
  case True
  then have "out_get mf op h = Returns (None, op, h)" by (simp add: out_get_def)
  then show ?thesis using inv by auto
next
  case False
  from inv obtain d where hp: "h p = Some d" by (rule chan_invD)
  note ev = out_get_eval(1) [OF inv hp False, of mf]
  show ?thesis
  proof (cases "d_size d > 0")
    case True
    then have some: "0 < unat (d_size d)" by (simp add: word_less_nat_alt)
    show ?thesis
      using ev True get_consume [OF inv hp some, of "mf (storage d ! unat (read_pos op))"]
      by auto
  next
    case False
    then have empty: "d_size d = 0" by (simp add: word_gt_0)
    show ?thesis
      using ev False out_shutdown [OF inv hp empty] by auto
  qed
qed

lemma out_try_get_step:
  assumes inv: "chan_inv p (ip, op, h)"
  shows "\<exists>r op' h'. out_try_get mf op h = Returns (r, op', h') \<and> chan_inv p (ip, op', h')
            \<and> buffered p (ip, op, h)
                = (case r of None \<Rightarrow> [] | Some x \<Rightarrow> [x]) @ buffered p (ip, op', h')"
proof (cases "o_closed op")
  case True
  then have "out_try_get mf op h = Returns (None, op, h)" by (simp add: out_try_get_def)
  then show ?thesis using inv by auto
next
  case False
  from inv obtain d where hp: "h p = Some d" by (rule chan_invD)
  note ev = out_get_eval(2) [OF inv hp False, of mf]
  show ?thesis
  proof (cases "d_size d > 0")
    case True
    then have some: "0 < unat (d_size d)" by (simp add: word_less_nat_alt)
    show ?thesis
      using ev True get_consume [OF inv hp some, of "mf (storage d ! unat (read_pos op))"]
      by auto
  next
    case False
    then have empty: "d_size d = 0" by (simp add: word_gt_0)
    show ?thesis
      using ev False out_shutdown [OF inv hp empty] inv by auto
  qed
qed

lemma drain_ring:
  fixes d :: "'a data"
  assumes "length (storage d) = unat cap" "unat pos < unat cap" "n \<le> unat cap"
  shows "\<exists>pos' st'. drain mf n cap pos d acc
            = Returns (acc @ ring (unat cap) (unat pos) n (storage d), pos', d\<lparr>storage := st'\<rparr>)
          \<and> unat pos' = (unat pos + n) mod unat cap \<and> length st' = unat cap"
  using assms
proof (induction n arbitrary: pos d acc)
  case 0
  have "d\<lparr>storage := storage d\<rparr> = d" by simp
  then show ?case using 0 by (auto intro: exI [of _ "storage d"])
next
  case (Suc n)
  let ?C = "unat cap"
  let ?r = "unat pos"
  let ?x = "storage d ! ?r"
  let ?d1 = "d\<lparr>storage := (storage d)[?r := mf ?x]\<rparr>"
  let ?pos1 = "wrapping_inc pos cap"
  have take': "take_slot mf pos d = Returns (?x, ?d1)"
    using Suc.prems by (simp add: take_slot_def)
  have p1: "unat ?pos1 = (?r + 1) mod ?C"
    using Suc.prems by (simp add: unat_wrapping_inc)
  have p1lt: "unat ?pos1 < ?C" using p1 Suc.prems by simp
  have len1: "length (storage ?d1) = ?C" using Suc.prems by simp
  have nle: "n \<le> ?C" using Suc.prems by simp
  from Suc.IH [OF len1 p1lt nle, of "acc @ [?x]"]
  obtain pos' st' where dr: "drain mf n cap ?pos1 ?d1 (acc @ [?x])
            = Returns ((acc @ [?x]) @ ring ?C (unat ?pos1) n (storage ?d1), pos',
                       ?d1\<lparr>storage := st'\<rparr>)"
    and pos': "unat pos' = (unat ?pos1 + n) mod ?C" and lst: "length st' = ?C"
    by blast
  have r1: "ring ?C ((?r + 1) mod ?C) n ((storage d)[?r := mf ?x])
      = ring ?C ((?r + 1) mod ?C) n (storage d)"
    using Suc.prems by (intro ring_update_head) simp_all
  have r2: "ring ?C ?r (Suc n) (storage d) = ?x # ring ?C ((?r + 1) mod ?C) n (storage d)"
    using Suc.prems ring_pop [of "Suc n" ?r ?C "storage d"] by simp
  have pp: "unat pos' = (?r + Suc n) mod ?C"
    using pos' p1 by (simp add: mod_add_left_eq)
  have "drain mf (Suc n) cap pos d acc
      = Returns (acc @ ring ?C ?r (Suc n) (storage d), pos', d\<lparr>storage := st'\<rparr>)"
    using take' dr r1 r2 p1 by (simp add: obind_def)
  then show ?case using pp lst by blast
qed

lemma get_all_drained:
  fixes d :: "'a data"
  assumes inv: "chan_inv p (ip, op, h)" and hp: "h p = Some d"
    and pos: "unat pos = (unat (read_pos op) + unat (d_size d)) mod unat (d_capacity d)"
    and lst: "length st = unat (d_capacity d)"
  defines "op' \<equiv> op\<lparr>read_pos := pos, o_old_size := 0\<rparr>"
  defines "h' \<equiv> h(p \<mapsto> d\<lparr>storage := st, d_size := 0\<rparr>)"
  shows "chan_inv p (ip, op', h')" and "buffered p (ip, op', h') = []"
proof -
  from inv obtain d0 where d0: "h p = Some d0"
    and sh: "i_shared ip = Some p" "o_shared op = Some p"
    and cap: "i_capacity ip = d_capacity d0" "o_capacity op = d_capacity d0"
    and cpos: "0 < unat (d_capacity d0)" and len: "length (storage d0) = unat (d_capacity d0)"
    and sz: "unat (d_size d0) \<le> unat (d_capacity d0)"
    and rp: "unat (read_pos op) < unat (d_capacity d0)"
    and wp: "unat (write_pos ip) < unat (d_capacity d0)"
    and wr: "unat (write_pos ip) = (unat (read_pos op) + unat (d_size d0)) mod unat (d_capacity d0)"
    and ic: "i_closed ip \<or> unat (d_size d0) \<le> unat (i_old_size ip)"
    and al: "i_closed ip = (\<not> in_alive d0)" "o_closed op = (\<not> out_alive d0)"
    and mx: "\<not> mutex_busy d0"
    by (rule chan_invD)
  have dd: "d0 = d" using d0 hp by simp
  note facts = sh cap cpos len sz rp wp wr ic al mx
  have plt: "unat pos < unat (d_capacity d)" using pos cpos dd by simp
  show "chan_inv p (ip, op', h')"
    using facts [unfolded dd] pos lst plt
    by (intro chan_invI [where d = "d\<lparr>storage := st, d_size := 0\<rparr>"])
       (auto simp: op'_def h'_def)
  show "buffered p (ip, op', h') = []"
    by (simp add: buffered_def op'_def h'_def)
qed

lemma out_get_all_eval:
  fixes d :: "'a data"
  assumes inv: "chan_inv p (ip, op, h)" and hp: "h p = Some d" and open': "\<not> o_closed op"
    and some: "d_size d > 0"
  shows "\<exists>pos st. unat pos = (unat (read_pos op) + unat (d_size d)) mod unat (d_capacity d)
          \<and> length st = unat (d_capacity d)
          \<and> out_get_all mf op h
              = Returns (Some (buffered p (ip, op, h)), op\<lparr>read_pos := pos, o_old_size := 0\<rparr>,
                         h(p \<mapsto> d\<lparr>storage := st, d_size := 0\<rparr>))
          \<and> out_try_get_all mf op h
              = Returns (Some (buffered p (ip, op, h)), op\<lparr>read_pos := pos, o_old_size := 0\<rparr>,
                         h(p \<mapsto> d\<lparr>storage := st, d_size := 0\<rparr>))"
proof -
  from inv obtain d0 where d0: "h p = Some d0"
    and sh: "o_shared op = Some p"
    and cap: "o_capacity op = d_capacity d0"
    and len: "length (storage d0) = unat (d_capacity d0)"
    and sz: "unat (d_size d0) \<le> unat (d_capacity d0)"
    and rp: "unat (read_pos op) < unat (d_capacity d0)"
    and mx: "\<not> mutex_busy d0"
    by (rule chan_invD)
  have dd: "d0 = d" using d0 hp by simp
  from drain_ring [OF len [unfolded dd] rp [unfolded dd] sz [unfolded dd], of mf "[]"]
  obtain pos st where dr: "drain mf (unat (d_size d)) (d_capacity d) (read_pos op) d []
      = Returns ([] @ ring (unat (d_capacity d)) (unat (read_pos op)) (unat (d_size d)) (storage d),
                 pos, d\<lparr>storage := st\<rparr>)"
    and pos: "unat pos = (unat (read_pos op) + unat (d_size d)) mod unat (d_capacity d)"
    and lst: "length st = unat (d_capacity d)"
    by blast
  have "out_get_all mf op h
      = Returns (Some (buffered p (ip, op, h)), op\<lparr>read_pos := pos, o_old_size := 0\<rparr>,
                 h(p \<mapsto> d\<lparr>storage := st, d_size := 0\<rparr>))"
    using open' hp sh cap [unfolded dd] some dr mx [unfolded dd]
    by (simp add: out_get_all_def deref_def obind_def buffered_def)
  moreover have "out_try_get_all mf op h
      = Returns (Some (buffered p (ip, op, h)), op\<lparr>read_pos := pos, o_old_size := 0\<rparr>,
                 h(p \<mapsto> d\<lparr>storage := st, d_size := 0\<rparr>))"
    using open' hp sh cap [unfolded dd] some dr mx [unfolded dd]
    by (simp add: out_try_get_all_def deref_def obind_def buffered_def)
  ultimately show ?thesis using pos lst by blast
qed

lemma out_get_all_step:
  assumes inv: "chan_inv p (ip, op, h)"
  shows "out_get_all mf op h = Blocks
       \<or> (\<exists>r op' h'. out_get_all mf op h = Returns (r, op', h') \<and> chan_inv p (ip, op', h')
            \<and> buffered p (ip, op, h)
                = (case r of None \<Rightarrow> [] | Some xs \<Rightarrow> xs) @ buffered p (ip, op', h'))"
proof (cases "o_closed op")
  case True
  then have "out_get_all mf op h = Returns (None, op, h)" by (simp add: out_get_all_def)
  then show ?thesis using inv by auto
next
  case False
  from inv obtain d where hp: "h p = Some d" and sh: "o_shared op = Some p"
    and mx: "\<not> mutex_busy d"
    by (rule chan_invD)
  show ?thesis
  proof (cases "d_size d > 0")
    case True
    from out_get_all_eval [OF inv hp False True, of mf]
    obtain pos st where pos: "unat pos = (unat (read_pos op) + unat (d_size d)) mod unat (d_capacity d)"
      and lst: "length st = unat (d_capacity d)"
      and ev: "out_get_all mf op h
              = Returns (Some (buffered p (ip, op, h)), op\<lparr>read_pos := pos, o_old_size := 0\<rparr>,
                         h(p \<mapsto> d\<lparr>storage := st, d_size := 0\<rparr>))"
      by blast
    show ?thesis
      using ev get_all_drained [OF inv hp pos lst] by auto
  next
    case empty: False
    then have e0: "d_size d = 0" by (simp add: word_gt_0)
    have ev: "out_get_all mf op h =
       (if in_alive d then Blocks
        else Returns (None, op\<lparr>o_old_size := 0, o_closed := True\<rparr>,
               h(p \<mapsto> d\<lparr>out_alive := False\<rparr>)))"
      using False hp sh empty mx by (simp add: out_get_all_def deref_def obind_def)
    show ?thesis
      using ev out_shutdown [OF inv hp e0] by auto
  qed
qed

lemma out_try_get_all_step:
  assumes inv: "chan_inv p (ip, op, h)"
  shows "\<exists>r op' h'. out_try_get_all mf op h = Returns (r, op', h') \<and> chan_inv p (ip, op', h')
            \<and> buffered p (ip, op, h)
                = (case r of None \<Rightarrow> [] | Some xs \<Rightarrow> xs) @ buffered p (ip, op', h')"
proof (cases "o_closed op")
  case True
  then have "out_try_get_all mf op h = Returns (None, op, h)" by (simp add: out_try_get_all_def)
  then show ?thesis using inv by auto
next
  case False
  from inv obtain d where hp: "h p = Some d" and sh: "o_shared op = Some p"
    and mx: "\<not> mutex_busy d"
    by (rule chan_invD)
  show ?thesis
  proof (cases "d_size d > 0")
    case True
    from out_get_all_eval [OF inv hp False True, of mf]
    obtain pos st where pos: "unat pos = (unat (read_pos op) + unat (d_size d)) mod unat (d_capacity d)"
      and lst: "length st = unat (d_capacity d)"
      and ev: "out_try_get_all mf op h
              = Returns (Some (buffered p (ip, op, h)), op\<lparr>read_pos := pos, o_old_size := 0\<rparr>,
                         h(p \<mapsto> d\<lparr>storage := st, d_size := 0\<rparr>))"
      by blast
    show ?thesis
      using ev get_all_drained [OF inv hp pos lst] by auto
  next
    case empty: False
    then have e0: "d_size d = 0" by (simp add: word_gt_0)
    have ev: "out_try_get_all mf op h =
       (if in_alive d then Returns (None, op, h)
        else Returns (None, op\<lparr>o_old_size := 0, o_closed := True\<rparr>,
               h(p \<mapsto> d\<lparr>out_alive := False\<rparr>)))"
      using False hp sh empty mx by (simp add: out_try_get_all_def deref_def obind_def)
    show ?thesis
      using ev out_shutdown [OF inv hp e0] inv by auto
  qed
qed

lemma put_value_ret:
  "put_value (Put v, Put_ret b) = (if b then [v] else [])"
  "put_value (Put_rvalue v, Put_ret b) = (if b then [v] else [])"
  by (cases b; simp)+

lemma got_values_ret:
  "got_values (c, Get_ret r) = (case r of None \<Rightarrow> [] | Some x \<Rightarrow> [x])"
  "got_values (c, Get_all_ret rs) = (case rs of None \<Rightarrow> [] | Some xs \<Rightarrow> xs)"
  "got_values (c, Put_ret b) = []"
  "got_values (c, Void_ret) = []"
  by (simp_all split: option.splits)

lemma step_preserves:
  assumes inv: "chan_inv p s"
  shows "step mf c s = Blocks
       \<or> (\<exists>r s'. step mf c s = Returns (r, s') \<and> chan_inv p s'
            \<and> buffered p s @ put_value (c, r) = got_values (c, r) @ buffered p s')"
proof -
  obtain ip op h where s: "s = (ip, op, h)" by (cases s)
  note inv' = inv [unfolded s]
  show ?thesis
  proof (cases c)
    case (Put v)
    from in_put_step [OF inv', of v] show ?thesis
      by (auto simp: step_def s Put obind_def put_value_ret)
  next
    case (Put_rvalue v)
    from in_put_rvalue_step [OF inv', of v] show ?thesis
      by (auto simp: step_def s Put_rvalue obind_def put_value_ret)
  next
    case Wait_till_empty
    from wait_till_empty_step [OF inv'] show ?thesis
      by (auto simp: step_def s Wait_till_empty obind_def)
  next
    case Close_in
    from in_close_step [OF inv'] show ?thesis
      by (auto simp: step_def s Close_in obind_def)
  next
    case Get
    from out_get_step [OF inv', of mf] show ?thesis
      by (auto simp: step_def s Get obind_def got_values_ret)
  next
    case Try_get
    from out_try_get_step [OF inv', of mf] show ?thesis
      by (auto simp: step_def s Try_get obind_def got_values_ret)
  next
    case Get_all
    from out_get_all_step [OF inv', of mf] show ?thesis
      by (auto simp: step_def s Get_all obind_def got_values_ret)
  next
    case Try_get_all
    from out_try_get_all_step [OF inv', of mf] show ?thesis
      by (auto simp: step_def s Try_get_all obind_def got_values_ret)
  next
    case Close_out
    from out_close_step [OF inv'] show ?thesis
      by (auto simp: step_def s Close_out obind_def)
  qed
qed

lemma run_preserves:
  assumes "chan_inv p s"
  shows "run mf cs s = Blocks
       \<or> (\<exists>tr s'. run mf cs s = Returns (tr, s') \<and> chan_inv p s' \<and> map fst tr = cs
            \<and> buffered p s @ sent tr = received tr @ buffered p s')"
  using assms
proof (induction cs arbitrary: s)
  case Nil
  then show ?case by (simp add: sent_def received_def)
next
  case (Cons c cs)
  from step_preserves [OF Cons.prems, of mf c]
  consider "step mf c s = Blocks"
    | r s1 where "step mf c s = Returns (r, s1)" "chan_inv p s1"
        "buffered p s @ put_value (c, r) = got_values (c, r) @ buffered p s1"
    by blast
  then show ?case
  proof cases
    case 1
    then show ?thesis by (simp add: obind_def)
  next
    case 2
    from Cons.IH [OF 2(2)]
    consider "run mf cs s1 = Blocks"
      | tr s2 where "run mf cs s1 = Returns (tr, s2)" "chan_inv p s2" "map fst tr = cs"
          "buffered p s1 @ sent tr = received tr @ buffered p s2"
      by blast
    then show ?thesis
    proof cases
      case 1
      then show ?thesis using 2(1) by (simp add: obind_def)
    next
      case b: 2
      have "buffered p s @ sent ((c, r) # tr) = (buffered p s @ put_value (c, r)) @ sent tr"
        by (simp add: sent_def)
      also have "\<dots> = got_values (c, r) @ (buffered p s1 @ sent tr)"
        using 2(3) by simp
      also have "\<dots> = received ((c, r) # tr) @ buffered p s2"
        using b(4) by (simp add: received_def)
      finally have rel: "buffered p s @ sent ((c, r) # tr) = received ((c, r) # tr) @ buffered p s2" .
      have "run mf (c # cs) s = Returns ((c, r) # tr, s2)"
        using 2(1) b(1) by (simp add: obind_def)
      then show ?thesis using b(2,3) rel by auto
    qed
  qed
qed

lemma create_eval:
  "CreateBufferedChannel dflt p max_size alloc_ok c h
     = (if unat (if c = 0 then 1 else c) \<le> max_size \<and> alloc_ok
        then Returns
          (\<lparr>i_shared = Some p, write_pos = 0, i_old_size = 0,
            i_capacity = (if c = 0 then 1 else c), i_closed = False\<rparr>,
           \<lparr>o_shared = Some p, read_pos = 0, o_old_size = 0,
            o_capacity = (if c = 0 then 1 else c), o_closed = False\<rparr>,
           h(p \<mapsto> \<lparr>d_size = 0, d_capacity = (if c = 0 then 1 else c),
                     storage = replicate (unat (if c = 0 then 1 else c)) dflt,
                     mutex_busy = False, in_alive = True, out_alive = True\<rparr>))
        else Throws)"
  by (simp add: CreateBufferedChannel_def Let_def in_ctor_def out_ctor_def deref_def obind_def
        data_ctor_def vector_ctor_def in_move_ctor_def out_move_ctor_def in_move_assign_def
        out_move_assign_def in_dtor_def out_dtor_def in_default_def out_default_def)

lemma unat_promoted: "unat (if c = 0 then 1 else c :: size_t) = max (unat c) 1"
proof (cases "c = 0")
  case True
  then show ?thesis by simp
next
  case False
  then have "0 < unat c" by (simp add: unat_gt_0)
  then show ?thesis using False by (simp add: max_def)
qed

lemma create_inv:
  assumes "CreateBufferedChannel dflt p max_size alloc_ok c h = Returns s0"
  shows "chan_inv p s0 \<and> buffered p s0 = [] \<and> abstraction p s0 = spec_create (unat c)"
proof -
  have pos: "0 < unat (if c = 0 then 1 else c)"
    by (simp add: unat_gt_0)
  have ok: "unat (if c = 0 then 1 else c) \<le> max_size \<and> alloc_ok"
    using assms unfolding create_eval by (simp split: if_splits)
  have s0: "s0 =
          (\<lparr>i_shared = Some p, write_pos = 0, i_old_size = 0,
            i_capacity = (if c = 0 then 1 else c), i_closed = False\<rparr>,
           \<lparr>o_shared = Some p, read_pos = 0, o_old_size = 0,
            o_capacity = (if c = 0 then 1 else c), o_closed = False\<rparr>,
           h(p \<mapsto> \<lparr>d_size = 0, d_capacity = (if c = 0 then 1 else c),
                     storage = replicate (unat (if c = 0 then 1 else c)) dflt,
                     mutex_busy = False, in_alive = True, out_alive = True\<rparr>))"
    using assms ok unfolding create_eval by simp
  have "chan_inv p s0" using pos unfolding s0 by (simp add: chan_inv_def)
  moreover have b: "buffered p s0 = []" unfolding s0 by (simp add: buffered_def)
  moreover have "abstraction p s0 = spec_create (unat c)"
    using b unat_promoted [of c] unfolding s0
    by (simp add: abstraction_def spec_create_def)
  ultimately show ?thesis by simp
qed

lemma drained_get:
  assumes inv: "chan_inv p (ip, op, h)" and closed: "i_closed ip"
    and empty: "buffered p (ip, op, h) = []"
  shows "\<exists>op' h'. out_get mf op h = Returns (None, op', h')"
proof (cases "o_closed op")
  case True
  then show ?thesis by (simp add: out_get_def)
next
  case False
  from inv obtain d where hp: "h p = Some d" and al: "i_closed ip = (\<not> in_alive d)"
    by (rule chan_invD)
  have "length (buffered p (ip, op, h)) = unat (d_size d)"
    using hp by (simp add: buffered_def)
  then have "unat (d_size d) = 0" using empty by simp
  then have "\<not> 0 < d_size d" by (simp add: word_less_nat_alt)
  then show ?thesis
    using out_get_eval(1) [OF inv hp False, of mf] al closed by simp
qed

subsection \<open>The code against the queue of the specification\<close>

lemma abstraction_eq:
  "h p = Some d \<Longrightarrow>
   abstraction p (ip, op, h)
     = \<lparr>queued = buffered p (ip, op, h), bound = unat (d_capacity d),
        producer_closed = i_closed ip, consumer_closed = o_closed op\<rparr>"
  by (simp add: abstraction_def)

lemma buffered_length:
  "h p = Some d \<Longrightarrow> length (buffered p (ip, op, h)) = unat (d_size d)"
  by (simp add: buffered_def)

lemma buffered_empty_iff:
  "h p = Some d \<Longrightarrow> (buffered p (ip, op, h) = []) = (d_size d = 0)"
  using buffered_length [of h p d ip op] by (simp add: unat_eq_0 flip: length_0_conv)

lemma in_put_refines:
  fixes v :: 'a
  assumes inv: "chan_inv p (ip, op, h)"
  shows "(in_put v ip h = Blocks \<and> spec_put v (abstraction p (ip, op, h)) = Blocks)
       \<or> (\<exists>b ip' h'. in_put v ip h = Returns (b, ip', h') \<and> chan_inv p (ip', op, h')
            \<and> spec_put v (abstraction p (ip, op, h)) = Returns (b, abstraction p (ip', op, h')))"
proof -
  from inv obtain d where hp: "h p = Some d"
    and cap: "i_capacity ip = d_capacity d"
    and ic: "i_closed ip \<or> unat (d_size d) \<le> unat (i_old_size ip)"
    and al: "i_closed ip = (\<not> in_alive d)" "o_closed op = (\<not> out_alive d)"
    by (rule chan_invD)
  note ab = abstraction_eq [where h = h and p = p and d = d and ip = ip and op = op, OF hp]
  note ln = buffered_length [where h = h and p = p and d = d and ip = ip and op = op, OF hp]
  show ?thesis
  proof (cases "i_closed ip")
    case True
    then have "in_put v ip h = Returns (False, ip, h)" by (simp add: in_put_def)
    moreover have "spec_put v (abstraction p (ip, op, h)) = Returns (False, abstraction p (ip, op, h))"
      using True by (simp add: spec_put_def ab)
    ultimately show ?thesis using inv by blast
  next
    case False
    note ev = in_put_eval [OF inv hp False, of v]
    show ?thesis
    proof (cases "out_alive d")
      case True
      show ?thesis
      proof (cases "d_size d < d_capacity d")
        case room: True
        then have room': "unat (d_size d) < unat (d_capacity d)" by (simp add: word_less_nat_alt)
        let ?ip' = "ip\<lparr>i_old_size := d_size d + 1,
                       write_pos := wrapping_inc (write_pos ip) (i_capacity ip)\<rparr>"
        let ?h' = "h(p \<mapsto> d\<lparr>storage := (storage d)[unat (write_pos ip) := v],
                            d_size := d_size d + 1\<rparr>)"
        have r: "in_put v ip h = Returns (True, ?ip', ?h')"
          using ev True room by simp
        have i': "chan_inv p (?ip', op, ?h')"
          and b': "buffered p (?ip', op, ?h') = buffered p (ip, op, h) @ [v]"
          using put_publish [OF inv hp room', of v] by simp_all
        have "abstraction p (?ip', op, ?h')
            = \<lparr>queued = buffered p (ip, op, h) @ [v], bound = unat (d_capacity d),
               producer_closed = False, consumer_closed = o_closed op\<rparr>"
          using b' False by (simp add: abstraction_def)
        then have "spec_put v (abstraction p (ip, op, h)) = Returns (True, abstraction p (?ip', op, ?h'))"
          using False True al room' ln by (simp add: spec_put_def ab)
        then show ?thesis using r i' by blast
      next
        case full: False
        then have "\<not> unat (d_size d) < unat (d_capacity d)" by (simp add: word_less_nat_alt)
        then have "spec_put v (abstraction p (ip, op, h)) = Blocks"
          using False True al ln by (simp add: spec_put_def ab)
        moreover have "in_put v ip h = Blocks" using ev True full by simp
        ultimately show ?thesis by blast
      qed
    next
      case dead: False
      let ?d1 = "if i_old_size ip < i_capacity ip
                 then d\<lparr>storage := (storage d)[unat (write_pos ip) := v]\<rparr> else d"
      let ?ip' = "ip\<lparr>i_old_size := i_capacity ip, i_closed := True\<rparr>"
      let ?h' = "h(p \<mapsto> ?d1\<lparr>in_alive := False\<rparr>)"
      have d1: "?d1 = d \<or> (unat (d_size d) < unat (d_capacity d)
                 \<and> ?d1 = d\<lparr>storage := (storage d)[unat (write_pos ip) := v]\<rparr>)"
        using ic False cap by (auto simp: word_less_nat_alt)
      have r: "in_put v ip h = Returns (False, ?ip', ?h')"
        using ev dead by simp
      have i': "chan_inv p (?ip', op, ?h')"
        using put_refused(1) [OF inv hp dead d1] by simp
      have b': "buffered p (?ip', op, ?h') = buffered p (ip, op, h)"
        using put_refused(3) [OF inv hp dead d1] by simp
      have "abstraction p (?ip', op, ?h')
          = \<lparr>queued = buffered p (ip, op, h), bound = unat (d_capacity d),
             producer_closed = True, consumer_closed = o_closed op\<rparr>"
        using b' by (simp add: abstraction_def)
      then have "spec_put v (abstraction p (ip, op, h)) = Returns (False, abstraction p (?ip', op, ?h'))"
        using False dead al by (simp add: spec_put_def ab)
      then show ?thesis using r i' by blast
    qed
  qed
qed

lemma in_put_rvalue_refines:
  fixes v :: 'a
  assumes inv: "chan_inv p (ip, op, h)"
  shows "(in_put_rvalue v ip h = Blocks \<and> spec_put v (abstraction p (ip, op, h)) = Blocks)
       \<or> (\<exists>b ip' h'. in_put_rvalue v ip h = Returns (b, ip', h') \<and> chan_inv p (ip', op, h')
            \<and> spec_put v (abstraction p (ip, op, h)) = Returns (b, abstraction p (ip', op, h')))"
proof -
  from inv obtain d where hp: "h p = Some d"
    and cap: "i_capacity ip = d_capacity d"
    and ic: "i_closed ip \<or> unat (d_size d) \<le> unat (i_old_size ip)"
    and al: "i_closed ip = (\<not> in_alive d)" "o_closed op = (\<not> out_alive d)"
    by (rule chan_invD)
  note ab = abstraction_eq [where h = h and p = p and d = d and ip = ip and op = op, OF hp]
  note ln = buffered_length [where h = h and p = p and d = d and ip = ip and op = op, OF hp]
  show ?thesis
  proof (cases "i_closed ip")
    case True
    then have "in_put_rvalue v ip h = Returns (False, ip, h)" by (simp add: in_put_rvalue_def)
    moreover have "spec_put v (abstraction p (ip, op, h)) = Returns (False, abstraction p (ip, op, h))"
      using True by (simp add: spec_put_def ab)
    ultimately show ?thesis using inv by blast
  next
    case False
    note ev = in_put_rvalue_eval [OF inv hp False, of v]
    show ?thesis
    proof (cases "out_alive d")
      case True
      show ?thesis
      proof (cases "d_size d < d_capacity d")
        case room: True
        then have room': "unat (d_size d) < unat (d_capacity d)" by (simp add: word_less_nat_alt)
        let ?ip' = "ip\<lparr>i_old_size := d_size d + 1,
                       write_pos := wrapping_inc (write_pos ip) (i_capacity ip)\<rparr>"
        let ?h' = "h(p \<mapsto> d\<lparr>storage := (storage d)[unat (write_pos ip) := v],
                            d_size := d_size d + 1\<rparr>)"
        have r: "in_put_rvalue v ip h = Returns (True, ?ip', ?h')"
          using ev True room by simp
        have i': "chan_inv p (?ip', op, ?h')"
          and b': "buffered p (?ip', op, ?h') = buffered p (ip, op, h) @ [v]"
          using put_publish [OF inv hp room', of v] by simp_all
        have "abstraction p (?ip', op, ?h')
            = \<lparr>queued = buffered p (ip, op, h) @ [v], bound = unat (d_capacity d),
               producer_closed = False, consumer_closed = o_closed op\<rparr>"
          using b' False by (simp add: abstraction_def)
        then have "spec_put v (abstraction p (ip, op, h)) = Returns (True, abstraction p (?ip', op, ?h'))"
          using False True al room' ln by (simp add: spec_put_def ab)
        then show ?thesis using r i' by blast
      next
        case full: False
        then have "\<not> unat (d_size d) < unat (d_capacity d)" by (simp add: word_less_nat_alt)
        then have "spec_put v (abstraction p (ip, op, h)) = Blocks"
          using False True al ln by (simp add: spec_put_def ab)
        moreover have "in_put_rvalue v ip h = Blocks" using ev True full by simp
        ultimately show ?thesis by blast
      qed
    next
      case dead: False
      let ?d1 = "if i_old_size ip < i_capacity ip
                 then d\<lparr>storage := (storage d)[unat (write_pos ip) := v]\<rparr> else d"
      let ?ip' = "ip\<lparr>i_closed := True\<rparr>"
      let ?h' = "h(p \<mapsto> ?d1\<lparr>in_alive := False\<rparr>)"
      have d1: "?d1 = d \<or> (unat (d_size d) < unat (d_capacity d)
                 \<and> ?d1 = d\<lparr>storage := (storage d)[unat (write_pos ip) := v]\<rparr>)"
        using ic False cap by (auto simp: word_less_nat_alt)
      have r: "in_put_rvalue v ip h = Returns (False, ?ip', ?h')"
        using ev dead by simp
      have i': "chan_inv p (?ip', op, ?h')"
        using put_refused(2) [OF inv hp dead d1] by simp
      have b': "buffered p (?ip', op, ?h') = buffered p (ip, op, h)"
        using put_refused(3) [OF inv hp dead d1] by simp
      have "abstraction p (?ip', op, ?h')
          = \<lparr>queued = buffered p (ip, op, h), bound = unat (d_capacity d),
             producer_closed = True, consumer_closed = o_closed op\<rparr>"
        using b' by (simp add: abstraction_def)
      then have "spec_put v (abstraction p (ip, op, h)) = Returns (False, abstraction p (?ip', op, ?h'))"
        using False dead al by (simp add: spec_put_def ab)
      then show ?thesis using r i' by blast
    qed
  qed
qed


lemma wait_till_empty_refines:
  assumes inv: "chan_inv p (ip, op, h)"
  shows "(wait_till_empty ip h = Blocks
            \<and> spec_wait_till_empty (abstraction p (ip, op, h)) = Blocks)
       \<or> (\<exists>ip' h'. wait_till_empty ip h = Returns (ip', h') \<and> chan_inv p (ip', op, h')
            \<and> spec_wait_till_empty (abstraction p (ip, op, h))
                = Returns (abstraction p (ip', op, h')))"
proof -
  from inv obtain d where hp: "h p = Some d"
    and sh: "i_shared ip = Some p" "o_shared op = Some p"
    and cap: "i_capacity ip = d_capacity d" "o_capacity op = d_capacity d"
    and cpos: "0 < unat (d_capacity d)" and len: "length (storage d) = unat (d_capacity d)"
    and sz: "unat (d_size d) \<le> unat (d_capacity d)"
    and rp: "unat (read_pos op) < unat (d_capacity d)"
    and wp: "unat (write_pos ip) < unat (d_capacity d)"
    and wr: "unat (write_pos ip) = (unat (read_pos op) + unat (d_size d)) mod unat (d_capacity d)"
    and oc: "o_closed op \<or> unat (o_old_size op) \<le> unat (d_size d)"
    and al: "i_closed ip = (\<not> in_alive d)" "o_closed op = (\<not> out_alive d)"
    and mx: "\<not> mutex_busy d"
    by (rule chan_invD)
  note facts = sh cap cpos len sz rp wp wr oc al mx
  note em = buffered_empty_iff [where h = h and p = p and d = d and ip = ip and op = op, OF hp]
  have ev: "wait_till_empty ip h =
     (if \<not> (d_size d = 0 \<or> \<not> out_alive d) then Blocks
      else if \<not> out_alive d then
        Returns (ip\<lparr>i_old_size := d_size d, i_closed := True\<rparr>, h(p \<mapsto> d\<lparr>in_alive := False\<rparr>))
      else Returns (ip\<lparr>i_old_size := d_size d\<rparr>, h))"
    using hp sh mx by (simp add: wait_till_empty_def deref_def obind_def)
  have i1: "chan_inv p (ip\<lparr>i_old_size := d_size d, i_closed := True\<rparr>, op,
              h(p \<mapsto> d\<lparr>in_alive := False\<rparr>))" if "\<not> out_alive d"
    using facts that by (intro chan_invI [where d = "d\<lparr>in_alive := False\<rparr>"]) auto
  have i2: "chan_inv p (ip\<lparr>i_old_size := d_size d\<rparr>, op, h)"
    using facts hp by (intro chan_invI [where d = d]) auto
  have sp: "spec_wait_till_empty (abstraction p (ip, op, h)) =
     (if \<not> (d_size d = 0 \<or> \<not> out_alive d) then Blocks
      else if \<not> out_alive d then
        Returns (abstraction p (ip\<lparr>i_old_size := d_size d, i_closed := True\<rparr>, op,
                   h(p \<mapsto> d\<lparr>in_alive := False\<rparr>)))
      else Returns (abstraction p (ip\<lparr>i_old_size := d_size d\<rparr>, op, h)))"
    using hp al em by (auto simp: spec_wait_till_empty_def abstraction_def buffered_def)
  show ?thesis
    using ev sp i1 i2 by auto
qed

lemma in_close_refines:
  assumes inv: "chan_inv p (ip, op, h)"
  shows "\<exists>ip' h'. in_close ip h = Returns (ip', h') \<and> chan_inv p (ip', op, h')
            \<and> spec_close_in (abstraction p (ip, op, h)) = Returns (abstraction p (ip', op, h'))"
proof -
  from inv obtain d where hp: "h p = Some d"
    and sh: "i_shared ip = Some p" "o_shared op = Some p"
    and cap: "i_capacity ip = d_capacity d" "o_capacity op = d_capacity d"
    and cpos: "0 < unat (d_capacity d)" and len: "length (storage d) = unat (d_capacity d)"
    and sz: "unat (d_size d) \<le> unat (d_capacity d)"
    and rp: "unat (read_pos op) < unat (d_capacity d)"
    and wp: "unat (write_pos ip) < unat (d_capacity d)"
    and wr: "unat (write_pos ip) = (unat (read_pos op) + unat (d_size d)) mod unat (d_capacity d)"
    and oc: "o_closed op \<or> unat (o_old_size op) \<le> unat (d_size d)"
    and al: "i_closed ip = (\<not> in_alive d)" "o_closed op = (\<not> out_alive d)"
    and mx: "\<not> mutex_busy d"
    by (rule chan_invD)
  note facts = sh cap cpos len sz rp wp wr oc al mx
  have ev: "in_close ip h =
     (if i_closed ip then Returns (ip, h)
      else Returns (ip\<lparr>i_closed := True\<rparr>, h(p \<mapsto> d\<lparr>in_alive := False\<rparr>)))"
    using hp sh mx by (simp add: in_close_def deref_def obind_def)
  have i1: "chan_inv p (ip\<lparr>i_closed := True\<rparr>, op, h(p \<mapsto> d\<lparr>in_alive := False\<rparr>))"
    using facts by (intro chan_invI [where d = "d\<lparr>in_alive := False\<rparr>"]) auto
  have sp: "spec_close_in (abstraction p (ip, op, h)) =
     (if i_closed ip then Returns (abstraction p (ip, op, h))
      else Returns (abstraction p (ip\<lparr>i_closed := True\<rparr>, op, h(p \<mapsto> d\<lparr>in_alive := False\<rparr>))))"
    using hp by (auto simp: spec_close_in_def abstraction_def buffered_def)
  show ?thesis
    using ev sp i1 inv by auto
qed

lemma out_close_refines:
  assumes inv: "chan_inv p (ip, op, h)"
  shows "\<exists>op' h'. out_close op h = Returns (op', h') \<and> chan_inv p (ip, op', h')
            \<and> spec_close_out (abstraction p (ip, op, h)) = Returns (abstraction p (ip, op', h'))"
proof -
  from inv obtain d where hp: "h p = Some d"
    and sh: "i_shared ip = Some p" "o_shared op = Some p"
    and cap: "i_capacity ip = d_capacity d" "o_capacity op = d_capacity d"
    and cpos: "0 < unat (d_capacity d)" and len: "length (storage d) = unat (d_capacity d)"
    and sz: "unat (d_size d) \<le> unat (d_capacity d)"
    and rp: "unat (read_pos op) < unat (d_capacity d)"
    and wp: "unat (write_pos ip) < unat (d_capacity d)"
    and wr: "unat (write_pos ip) = (unat (read_pos op) + unat (d_size d)) mod unat (d_capacity d)"
    and ic: "i_closed ip \<or> unat (d_size d) \<le> unat (i_old_size ip)"
    and al: "i_closed ip = (\<not> in_alive d)" "o_closed op = (\<not> out_alive d)"
    and mx: "\<not> mutex_busy d"
    by (rule chan_invD)
  note facts = sh cap cpos len sz rp wp wr ic al mx
  have ev: "out_close op h =
     (if o_closed op then Returns (op, h)
      else Returns (op\<lparr>o_closed := True\<rparr>, h(p \<mapsto> d\<lparr>out_alive := False\<rparr>)))"
    using hp sh mx by (simp add: out_close_def deref_def obind_def)
  have i1: "chan_inv p (ip, op\<lparr>o_closed := True\<rparr>, h(p \<mapsto> d\<lparr>out_alive := False\<rparr>))"
    using facts by (intro chan_invI [where d = "d\<lparr>out_alive := False\<rparr>"]) auto
  have sp: "spec_close_out (abstraction p (ip, op, h)) =
     (if o_closed op then Returns (abstraction p (ip, op, h))
      else Returns (abstraction p (ip, op\<lparr>o_closed := True\<rparr>, h(p \<mapsto> d\<lparr>out_alive := False\<rparr>))))"
    using hp by (auto simp: spec_close_out_def abstraction_def buffered_def)
  show ?thesis
    using ev sp i1 inv by auto
qed

lemma get_refines:
  assumes inv: "chan_inv p (ip, op, h)"
  shows "(out_get mf op h = Blocks \<and> spec_get True (abstraction p (ip, op, h)) = Blocks)
       \<or> (\<exists>r op' h'. out_get mf op h = Returns (r, op', h') \<and> chan_inv p (ip, op', h')
            \<and> spec_get True (abstraction p (ip, op, h))
                = Returns (r, abstraction p (ip, op', h')))"
    and "\<exists>r op' h'. out_try_get mf op h = Returns (r, op', h') \<and> chan_inv p (ip, op', h')
            \<and> spec_get False (abstraction p (ip, op, h))
                = Returns (r, abstraction p (ip, op', h'))"
proof -
  from inv obtain d where hp: "h p = Some d"
    and al: "i_closed ip = (\<not> in_alive d)" "o_closed op = (\<not> out_alive d)"
    by (rule chan_invD)
  note ab = abstraction_eq [where h = h and p = p and d = d and ip = ip and op = op, OF hp]
  note em = buffered_empty_iff [where h = h and p = p and d = d and ip = ip and op = op, OF hp]
  let ?G = "(out_get mf op h = Blocks \<and> spec_get True (abstraction p (ip, op, h)) = Blocks)
       \<or> (\<exists>r op' h'. out_get mf op h = Returns (r, op', h') \<and> chan_inv p (ip, op', h')
            \<and> spec_get True (abstraction p (ip, op, h))
                = Returns (r, abstraction p (ip, op', h')))"
  let ?T = "\<exists>r op' h'. out_try_get mf op h = Returns (r, op', h') \<and> chan_inv p (ip, op', h')
            \<and> spec_get False (abstraction p (ip, op, h))
                = Returns (r, abstraction p (ip, op', h'))"
  have "?G \<and> ?T"
  proof (cases "o_closed op")
    case True
    then have "out_get mf op h = Returns (None, op, h)"
      and "out_try_get mf op h = Returns (None, op, h)"
      by (simp_all add: out_get_def out_try_get_def)
    moreover have "spec_get w (abstraction p (ip, op, h)) = Returns (None, abstraction p (ip, op, h))"
      for w using True by (simp add: spec_get_def ab)
    ultimately show ?thesis using inv by auto
  next
    case False
    note ev = out_get_eval [OF inv hp False, of mf]
    show ?thesis
    proof (cases "d_size d > 0")
      case True
      then have some: "0 < unat (d_size d)" by (simp add: word_less_nat_alt)
      let ?x = "storage d ! unat (read_pos op)"
      let ?op' = "op\<lparr>o_old_size := d_size d - 1,
                      read_pos := wrapping_inc (read_pos op) (o_capacity op)\<rparr>"
      let ?h' = "h(p \<mapsto> d\<lparr>storage := (storage d)[unat (read_pos op) := mf ?x],
                          d_size := d_size d - 1\<rparr>)"
      have i': "chan_inv p (ip, ?op', ?h')"
        and b: "buffered p (ip, op, h) = ?x # buffered p (ip, ?op', ?h')"
        using get_consume [OF inv hp some, of "mf ?x"] by simp_all
      have a': "abstraction p (ip, ?op', ?h')
          = \<lparr>queued = buffered p (ip, ?op', ?h'), bound = unat (d_capacity d),
             producer_closed = i_closed ip, consumer_closed = False\<rparr>"
        using False by (simp add: abstraction_def)
      have "spec_get w (abstraction p (ip, op, h)) = Returns (Some ?x, abstraction p (ip, ?op', ?h'))"
        for w using False by (simp add: spec_get_def ab a' b)
      then show ?thesis using ev True i' by auto
    next
      case empty: False
      then have e0: "d_size d = 0" by (simp add: word_gt_0)
      then have be: "buffered p (ip, op, h) = []" using em by simp
      let ?op' = "op\<lparr>o_old_size := 0, o_closed := True\<rparr>"
      let ?h' = "h(p \<mapsto> d\<lparr>out_alive := False\<rparr>)"
      have i': "chan_inv p (ip, ?op', ?h')"
        and b': "buffered p (ip, ?op', ?h') = buffered p (ip, op, h)"
        using out_shutdown [OF inv hp e0] by simp_all
      have a': "abstraction p (ip, ?op', ?h')
          = \<lparr>queued = [], bound = unat (d_capacity d),
             producer_closed = i_closed ip, consumer_closed = True\<rparr>"
        using b' be by (simp add: abstraction_def)
      have sp: "spec_get w (abstraction p (ip, op, h)) =
         (if in_alive d then (if w then Blocks else Returns (None, abstraction p (ip, op, h)))
          else Returns (None, abstraction p (ip, ?op', ?h')))"
        for w using False al be by (simp add: spec_get_def ab a')
      show ?thesis using ev empty sp i' inv by auto
    qed
  qed
  then show ?G and ?T by simp_all
qed

lemma get_all_refines:
  assumes inv: "chan_inv p (ip, op, h)"
  shows "(out_get_all mf op h = Blocks \<and> spec_get_all True (abstraction p (ip, op, h)) = Blocks)
       \<or> (\<exists>r op' h'. out_get_all mf op h = Returns (r, op', h') \<and> chan_inv p (ip, op', h')
            \<and> spec_get_all True (abstraction p (ip, op, h))
                = Returns (r, abstraction p (ip, op', h')))"
    and "\<exists>r op' h'. out_try_get_all mf op h = Returns (r, op', h') \<and> chan_inv p (ip, op', h')
            \<and> spec_get_all False (abstraction p (ip, op, h))
                = Returns (r, abstraction p (ip, op', h'))"
proof -
  from inv obtain d where hp: "h p = Some d" and sh: "o_shared op = Some p"
    and al: "i_closed ip = (\<not> in_alive d)" "o_closed op = (\<not> out_alive d)"
    and mx: "\<not> mutex_busy d"
    by (rule chan_invD)
  note ab = abstraction_eq [where h = h and p = p and d = d and ip = ip and op = op, OF hp]
  note em = buffered_empty_iff [where h = h and p = p and d = d and ip = ip and op = op, OF hp]
  let ?G = "(out_get_all mf op h = Blocks \<and> spec_get_all True (abstraction p (ip, op, h)) = Blocks)
       \<or> (\<exists>r op' h'. out_get_all mf op h = Returns (r, op', h') \<and> chan_inv p (ip, op', h')
            \<and> spec_get_all True (abstraction p (ip, op, h))
                = Returns (r, abstraction p (ip, op', h')))"
  let ?T = "\<exists>r op' h'. out_try_get_all mf op h = Returns (r, op', h') \<and> chan_inv p (ip, op', h')
            \<and> spec_get_all False (abstraction p (ip, op, h))
                = Returns (r, abstraction p (ip, op', h'))"
  have "?G \<and> ?T"
  proof (cases "o_closed op")
    case True
    then have "out_get_all mf op h = Returns (None, op, h)"
      and "out_try_get_all mf op h = Returns (None, op, h)"
      by (simp_all add: out_get_all_def out_try_get_all_def)
    moreover have "spec_get_all w (abstraction p (ip, op, h))
        = Returns (None, abstraction p (ip, op, h))"
      for w using True by (simp add: spec_get_all_def ab)
    ultimately show ?thesis using inv by auto
  next
    case False
    show ?thesis
    proof (cases "d_size d > 0")
      case True
      then have ne: "buffered p (ip, op, h) \<noteq> []" using em by auto
      from out_get_all_eval [OF inv hp False True, of mf]
      obtain pos st
        where pos: "unat pos = (unat (read_pos op) + unat (d_size d)) mod unat (d_capacity d)"
        and lst: "length st = unat (d_capacity d)"
        and ev1: "out_get_all mf op h
              = Returns (Some (buffered p (ip, op, h)), op\<lparr>read_pos := pos, o_old_size := 0\<rparr>,
                         h(p \<mapsto> d\<lparr>storage := st, d_size := 0\<rparr>))"
        and ev2: "out_try_get_all mf op h
              = Returns (Some (buffered p (ip, op, h)), op\<lparr>read_pos := pos, o_old_size := 0\<rparr>,
                         h(p \<mapsto> d\<lparr>storage := st, d_size := 0\<rparr>))"
        by blast
      let ?op' = "op\<lparr>read_pos := pos, o_old_size := 0\<rparr>"
      let ?h' = "h(p \<mapsto> d\<lparr>storage := st, d_size := 0\<rparr>)"
      have i': "chan_inv p (ip, ?op', ?h')" and b': "buffered p (ip, ?op', ?h') = []"
        using get_all_drained [OF inv hp pos lst] by simp_all
      have a': "abstraction p (ip, ?op', ?h')
          = \<lparr>queued = [], bound = unat (d_capacity d),
             producer_closed = i_closed ip, consumer_closed = False\<rparr>"
        using b' False by (simp add: abstraction_def)
      have "spec_get_all w (abstraction p (ip, op, h))
          = Returns (Some (buffered p (ip, op, h)), abstraction p (ip, ?op', ?h'))"
        for w using False ne by (simp add: spec_get_all_def ab a')
      then show ?thesis using ev1 ev2 i' by auto
    next
      case empty: False
      then have e0: "d_size d = 0" by (simp add: word_gt_0)
      then have be: "buffered p (ip, op, h) = []" using em by simp
      let ?op' = "op\<lparr>o_old_size := 0, o_closed := True\<rparr>"
      let ?h' = "h(p \<mapsto> d\<lparr>out_alive := False\<rparr>)"
      have ev1: "out_get_all mf op h =
         (if in_alive d then Blocks else Returns (None, ?op', ?h'))"
        using False hp sh empty mx by (simp add: out_get_all_def deref_def obind_def)
      have ev2: "out_try_get_all mf op h =
         (if in_alive d then Returns (None, op, h) else Returns (None, ?op', ?h'))"
        using False hp sh empty mx by (simp add: out_try_get_all_def deref_def obind_def)
      have i': "chan_inv p (ip, ?op', ?h')"
        and b': "buffered p (ip, ?op', ?h') = buffered p (ip, op, h)"
        using out_shutdown [OF inv hp e0] by simp_all
      have a': "abstraction p (ip, ?op', ?h')
          = \<lparr>queued = [], bound = unat (d_capacity d),
             producer_closed = i_closed ip, consumer_closed = True\<rparr>"
        using b' be by (simp add: abstraction_def)
      have sp: "spec_get_all w (abstraction p (ip, op, h)) =
         (if in_alive d then (if w then Blocks else Returns (None, abstraction p (ip, op, h)))
          else Returns (None, abstraction p (ip, ?op', ?h')))"
        for w using False al be by (simp add: spec_get_all_def ab a')
      show ?thesis using ev1 ev2 sp i' inv by auto
    qed
  qed
  then show ?G and ?T by simp_all
qed

lemma step_refines:
  assumes inv: "chan_inv p s"
  shows "(step mf c s = Blocks \<and> spec_step c (abstraction p s) = Blocks)
       \<or> (\<exists>r s'. step mf c s = Returns (r, s') \<and> chan_inv p s'
            \<and> spec_step c (abstraction p s) = Returns (r, abstraction p s'))"
proof -
  obtain ip op h where s: "s = (ip, op, h)" by (cases s)
  note inv' = inv [unfolded s]
  show ?thesis
  proof (cases c)
    case (Put v)
    from in_put_refines [OF inv', of v] show ?thesis
      by (auto simp: step_def spec_step_def s Put obind_def)
  next
    case (Put_rvalue v)
    from in_put_rvalue_refines [OF inv', of v] show ?thesis
      by (auto simp: step_def spec_step_def s Put_rvalue obind_def)
  next
    case Wait_till_empty
    from wait_till_empty_refines [OF inv'] show ?thesis
      by (auto simp: step_def spec_step_def s Wait_till_empty obind_def)
  next
    case Close_in
    from in_close_refines [OF inv'] show ?thesis
      by (auto simp: step_def spec_step_def s Close_in obind_def)
  next
    case Get
    from get_refines(1) [OF inv', of mf] show ?thesis
      by (auto simp: step_def spec_step_def s Get obind_def)
  next
    case Try_get
    from get_refines(2) [OF inv', of mf] show ?thesis
      by (auto simp: step_def spec_step_def s Try_get obind_def)
  next
    case Get_all
    from get_all_refines(1) [OF inv', of mf] show ?thesis
      by (auto simp: step_def spec_step_def s Get_all obind_def)
  next
    case Try_get_all
    from get_all_refines(2) [OF inv', of mf] show ?thesis
      by (auto simp: step_def spec_step_def s Try_get_all obind_def)
  next
    case Close_out
    from out_close_refines [OF inv'] show ?thesis
      by (auto simp: step_def spec_step_def s Close_out obind_def)
  qed
qed

lemma run_refines:
  assumes "chan_inv p s"
  shows "map_outcome (\<lambda>(tr, s'). (tr, abstraction p s')) (run mf cs s)
           = spec_run cs (abstraction p s)"
  using assms
proof (induction cs arbitrary: s)
  case Nil
  then show ?case by simp
next
  case (Cons c cs)
  from step_refines [OF Cons.prems, of mf c]
  consider "step mf c s = Blocks" "spec_step c (abstraction p s) = Blocks"
    | r s1 where "step mf c s = Returns (r, s1)" "chan_inv p s1"
        "spec_step c (abstraction p s) = Returns (r, abstraction p s1)"
    by blast
  then show ?case
  proof cases
    case 1
    then show ?thesis by (simp add: obind_def)
  next
    case 2
    have ih: "map_outcome (\<lambda>(tr, s'). (tr, abstraction p s')) (run mf cs s1)
           = spec_run cs (abstraction p s1)"
      by (rule Cons.IH [OF 2(2)])
    show ?thesis
      using 2(1,3) ih
      by (cases "run mf cs s1") (auto simp: obind_def split: outcome.splits)
  qed
qed

lemma front_get:
  assumes inv: "chan_inv p (ip, op, h)" and open': "\<not> o_closed op"
    and front: "buffered p (ip, op, h) = x # xs"
  shows "\<exists>op' h'. out_get mf op h = Returns (Some x, op', h') \<and> buffered p (ip, op', h') = xs"
proof -
  from inv obtain d where hp: "h p = Some d" by (rule chan_invD)
  note ab = abstraction_eq [where h = h and p = p and d = d and ip = ip and op = op, OF hp]
  have sp: "spec_get True (abstraction p (ip, op, h))
      = Returns (Some x, (abstraction p (ip, op, h))\<lparr>queued := xs\<rparr>)"
    using open' front by (simp add: spec_get_def ab)
  from get_refines(1) [OF inv, of mf] sp
  obtain r op' h' where r: "out_get mf op h = Returns (r, op', h')"
    and eq: "Returns (Some x, (abstraction p (ip, op, h))\<lparr>queued := xs\<rparr>)
               = Returns (r, abstraction p (ip, op', h'))"
    by auto
  from eq have "r = Some x"
    and "queued (abstraction p (ip, op', h')) = queued ((abstraction p (ip, op, h))\<lparr>queued := xs\<rparr>)"
    by simp_all
  then have "r = Some x" and "buffered p (ip, op', h') = xs"
    by (simp_all add: abstraction_def)
  then show ?thesis using r by blast
qed

lemma end_of_stream_only:
  assumes inv: "chan_inv p (ip, op, h)"
    and none: "out_get mf op h = Returns (None, op', h')"
  shows "o_closed op \<or> (i_closed ip \<and> buffered p (ip, op, h) = [])"
proof -
  from inv obtain d where hp: "h p = Some d" by (rule chan_invD)
  note ab = abstraction_eq [where h = h and p = p and d = d and ip = ip and op = op, OF hp]
  from get_refines(1) [OF inv, of mf] none
  have "spec_get True (abstraction p (ip, op, h)) = Returns (None, abstraction p (ip, op', h'))"
    by auto
  then show ?thesis
    by (auto simp: spec_get_def ab split: if_splits list.splits)
qed

text \<open>
  C2. Take a channel as \<^verbatim>\<open>CreateBufferedChannel\<close> returns it, of any capacity, and
  any sequence of calls on its two ends (both puts, \<^verbatim>\<open>wait_till_empty\<close>, the four
  gets and the two closes), each run to completion. No call is undefined, and call for
  call the code does what the queue of the specification does, started empty with the
  requested capacity: the run blocks exactly when the queue's run blocks, and otherwise
  every call returns what the queue returns and the state reached stands for the queue
  reached. So a put succeeds exactly when the producer is open, the consumer alive and
  there is room, and then appends its value; a get on a non-empty queue hands over the
  oldest value and removes it; a get returns \<^verbatim>\<open>nullopt\<close> only on a closed consumer
  or on an empty queue whose producer is closed. In particular, when the run returns,
  the values of the puts that returned true are, in order, the values the consumer was
  handed followed by the values still in the buffer: what the consumer got is a prefix
  of what was put, nothing twice, nothing missing, and all of it once the buffer is
  empty. In the state reached, if the producer is closed and the buffer is empty, the
  next \<^verbatim>\<open>get\<close> returns \<^verbatim>\<open>nullopt\<close>; if the consumer is open and the buffer is not
  empty, the next \<^verbatim>\<open>get\<close> returns its oldest value and leaves the rest; and the
  next \<^verbatim>\<open>get\<close> returns \<^verbatim>\<open>nullopt\<close> in no other case than a closed consumer or a
  closed producer with an empty buffer.
\<close>

theorem channel_fifo:
  assumes create: "CreateBufferedChannel dflt p max_size alloc_ok c h0 = Returns s0"
  shows "map_outcome (\<lambda>(tr, s). (tr, abstraction p s)) (run mf calls s0)
           = spec_run calls (spec_create (unat c))
       \<and> (run mf calls s0 = Blocks
          \<or> (\<exists>tr ip op h. run mf calls s0 = Returns (tr, ip, op, h) \<and> map fst tr = calls
               \<and> sent tr = received tr @ buffered p (ip, op, h)
               \<and> (i_closed ip \<and> buffered p (ip, op, h) = []
                    \<longrightarrow> (\<exists>op' h'. out_get mf op h = Returns (None, op', h')))
               \<and> (\<forall>x xs. \<not> o_closed op \<and> buffered p (ip, op, h) = x # xs
                    \<longrightarrow> (\<exists>op' h'. out_get mf op h = Returns (Some x, op', h')
                           \<and> buffered p (ip, op', h') = xs))
               \<and> (\<forall>op' h'. out_get mf op h = Returns (None, op', h')
                    \<longrightarrow> o_closed op \<or> (i_closed ip \<and> buffered p (ip, op, h) = []))))"
proof -
  from create_inv [OF create] have inv0: "chan_inv p s0" and b0: "buffered p s0 = []"
    and a0: "abstraction p s0 = spec_create (unat c)"
    by simp_all
  have refines: "map_outcome (\<lambda>(tr, s). (tr, abstraction p s)) (run mf calls s0)
           = spec_run calls (spec_create (unat c))"
    using run_refines [OF inv0, of mf calls] a0 by simp
  from run_preserves [OF inv0, of mf calls]
  consider "run mf calls s0 = Blocks"
    | tr s where "run mf calls s0 = Returns (tr, s)" "chan_inv p s" "map fst tr = calls"
        "buffered p s0 @ sent tr = received tr @ buffered p s"
    by blast
  then have "run mf calls s0 = Blocks
          \<or> (\<exists>tr ip op h. run mf calls s0 = Returns (tr, ip, op, h) \<and> map fst tr = calls
               \<and> sent tr = received tr @ buffered p (ip, op, h)
               \<and> (i_closed ip \<and> buffered p (ip, op, h) = []
                    \<longrightarrow> (\<exists>op' h'. out_get mf op h = Returns (None, op', h')))
               \<and> (\<forall>x xs. \<not> o_closed op \<and> buffered p (ip, op, h) = x # xs
                    \<longrightarrow> (\<exists>op' h'. out_get mf op h = Returns (Some x, op', h')
                           \<and> buffered p (ip, op', h') = xs))
               \<and> (\<forall>op' h'. out_get mf op h = Returns (None, op', h')
                    \<longrightarrow> o_closed op \<or> (i_closed ip \<and> buffered p (ip, op, h) = [])))"
  proof cases
    case 1
    then show ?thesis by simp
  next
    case 2
    obtain ip op h where s: "s = (ip, op, h)" by (cases s)
    note inv = 2(2) [unfolded s]
    have eos: "i_closed ip \<and> buffered p (ip, op, h) = []
            \<longrightarrow> (\<exists>op' h'. out_get mf op h = Returns (None, op', h'))"
      using drained_get [OF inv, of mf] by blast
    have fr: "\<forall>x xs. \<not> o_closed op \<and> buffered p (ip, op, h) = x # xs
                    \<longrightarrow> (\<exists>op' h'. out_get mf op h = Returns (Some x, op', h')
                           \<and> buffered p (ip, op', h') = xs)"
      using front_get [OF inv, of _ _ mf] by blast
    have only: "\<forall>op' h'. out_get mf op h = Returns (None, op', h')
                    \<longrightarrow> o_closed op \<or> (i_closed ip \<and> buffered p (ip, op, h) = [])"
      using end_of_stream_only [OF inv, of mf] by blast
    have "run mf calls s0 = Returns (tr, ip, op, h)" using 2(1) s by simp
    moreover have "sent tr = received tr @ buffered p (ip, op, h)"
      using 2(4) b0 s by simp
    ultimately show ?thesis using 2(3) eos fr only by blast
  qed
  then show ?thesis using refines by blast
qed

text \<open>
  The theorem on the channel of capacity 2 and the calls of \<open>happy_path\<close>: the run
  returns, the consumer gets 10, 20 and 30 in this order, and the get after the
  producer's close returns \<^verbatim>\<open>nullopt\<close>, as with the queue of the specification.
  And on the calls of \<open>late_get\<close>: the value that was put before the producer's close
  is handed over by the first get after it, and only the second get returns
  \<^verbatim>\<open>nullopt\<close>; after the first two of these calls the buffer holds that value, and
  \<^verbatim>\<open>get\<close> returns it and leaves the buffer empty.
\<close>

theorem channel_fifo_witness:
  "CreateBufferedChannel (0 :: nat) 0 9223372036854775807 True 2 Map.empty
     = Returns
        (\<lparr>i_shared = Some 0, write_pos = 0, i_old_size = 0, i_capacity = 2, i_closed = False\<rparr>,
         \<lparr>o_shared = Some 0, read_pos = 0, o_old_size = 0, o_capacity = 2, o_closed = False\<rparr>,
         [0 \<mapsto> \<lparr>d_size = 0, d_capacity = 2, storage = [0, 0],
                mutex_busy = False, in_alive = True, out_alive = True\<rparr>])
   \<and> run (\<lambda>x. 0) happy_path
        (\<lparr>i_shared = Some 0, write_pos = 0, i_old_size = 0, i_capacity = 2, i_closed = False\<rparr>,
         \<lparr>o_shared = Some 0, read_pos = 0, o_old_size = 0, o_capacity = 2, o_closed = False\<rparr>,
         [0 \<mapsto> \<lparr>d_size = 0, d_capacity = 2, storage = [0, 0],
                mutex_busy = False, in_alive = True, out_alive = True\<rparr>])
     = Returns
        ([(Put 10, Put_ret True), (Put 20, Put_ret True), (Get, Get_ret (Some 10)),
          (Put 30, Put_ret True), (Get, Get_ret (Some 20)), (Get, Get_ret (Some 30)),
          (Close_in, Void_ret), (Get, Get_ret None)],
         (\<lparr>i_shared = Some 0, write_pos = 1, i_old_size = 2, i_capacity = 2, i_closed = True\<rparr>,
         \<lparr>o_shared = Some 0, read_pos = 1, o_old_size = 0, o_capacity = 2, o_closed = True\<rparr>,
         [0 \<mapsto> \<lparr>d_size = 0, d_capacity = 2, storage = [0, 0],
                mutex_busy = False, in_alive = False, out_alive = False\<rparr>]))
   \<and> spec_run happy_path (spec_create 2)
     = Returns
        ([(Put 10, Put_ret True), (Put 20, Put_ret True), (Get, Get_ret (Some 10)),
          (Put 30, Put_ret True), (Get, Get_ret (Some 20)), (Get, Get_ret (Some 30)),
          (Close_in, Void_ret), (Get, Get_ret None)],
         \<lparr>queued = [], bound = 2, producer_closed = True, consumer_closed = True\<rparr>)
   \<and> sent [(Put 10, Put_ret True), (Put 20, Put_ret True), (Get, Get_ret (Some 10)),
          (Put 30, Put_ret True), (Get, Get_ret (Some 20)), (Get, Get_ret (Some 30)),
          (Close_in, Void_ret), (Get, Get_ret None)] = [10, 20, 30 :: nat]
   \<and> received [(Put 10, Put_ret True), (Put 20, Put_ret True), (Get, Get_ret (Some 10)),
          (Put 30, Put_ret True), (Get, Get_ret (Some 20)), (Get, Get_ret (Some 30)),
          (Close_in, Void_ret), (Get, Get_ret None)] = [10, 20, 30 :: nat]
   \<and> map_outcome fst (run (\<lambda>x. 0) late_get
        (\<lparr>i_shared = Some 0, write_pos = 0, i_old_size = 0, i_capacity = 2, i_closed = False\<rparr>,
         \<lparr>o_shared = Some 0, read_pos = 0, o_old_size = 0, o_capacity = 2, o_closed = False\<rparr>,
         [0 \<mapsto> \<lparr>d_size = 0, d_capacity = 2, storage = [0, 0],
                mutex_busy = False, in_alive = True, out_alive = True\<rparr>]))
     = Returns [(Put 10, Put_ret True), (Close_in, Void_ret), (Get, Get_ret (Some 10)),
          (Get, Get_ret None)]
   \<and> map_outcome fst (spec_run late_get (spec_create 2))
     = Returns [(Put 10, Put_ret True), (Close_in, Void_ret), (Get, Get_ret (Some 10)),
          (Get, Get_ret None)]
   \<and> run (\<lambda>x. 0) [Put 10, Close_in]
        (\<lparr>i_shared = Some 0, write_pos = 0, i_old_size = 0, i_capacity = 2, i_closed = False\<rparr>,
         \<lparr>o_shared = Some 0, read_pos = 0, o_old_size = 0, o_capacity = 2, o_closed = False\<rparr>,
         [0 \<mapsto> \<lparr>d_size = 0, d_capacity = 2, storage = [0, 0],
                mutex_busy = False, in_alive = True, out_alive = True\<rparr>])
     = Returns
        ([(Put 10, Put_ret True), (Close_in, Void_ret)],
         \<lparr>i_shared = Some 0, write_pos = 1, i_old_size = 1, i_capacity = 2, i_closed = True\<rparr>,
         \<lparr>o_shared = Some 0, read_pos = 0, o_old_size = 0, o_capacity = 2, o_closed = False\<rparr>,
         [0 \<mapsto> \<lparr>d_size = 1, d_capacity = 2, storage = [10, 0],
                mutex_busy = False, in_alive = False, out_alive = True\<rparr>])
   \<and> buffered 0
        (\<lparr>i_shared = Some 0, write_pos = 1, i_old_size = 1, i_capacity = 2, i_closed = True\<rparr>,
         \<lparr>o_shared = Some 0, read_pos = 0, o_old_size = 0, o_capacity = 2, o_closed = False\<rparr>,
         [0 \<mapsto> \<lparr>d_size = 1, d_capacity = 2, storage = [10, 0],
                mutex_busy = False, in_alive = False, out_alive = True\<rparr>]) = [10 :: nat]
   \<and> out_get (\<lambda>x. 0)
        \<lparr>o_shared = Some 0, read_pos = 0, o_old_size = 0, o_capacity = 2, o_closed = False\<rparr>
        [0 \<mapsto> \<lparr>d_size = 1, d_capacity = 2, storage = [10 :: nat, 0],
               mutex_busy = False, in_alive = False, out_alive = True\<rparr>]
     = Returns
        (Some 10,
         \<lparr>o_shared = Some 0, read_pos = 1, o_old_size = 0, o_capacity = 2, o_closed = False\<rparr>,
         [0 \<mapsto> \<lparr>d_size = 0, d_capacity = 2, storage = [0, 0],
                mutex_busy = False, in_alive = False, out_alive = True\<rparr>])"
proof -
  have create: "CreateBufferedChannel (0 :: nat) 0 9223372036854775807 True 2 Map.empty
     = Returns
        (\<lparr>i_shared = Some 0, write_pos = 0, i_old_size = 0, i_capacity = 2, i_closed = False\<rparr>,
         \<lparr>o_shared = Some 0, read_pos = 0, o_old_size = 0, o_capacity = 2, o_closed = False\<rparr>,
         [0 \<mapsto> \<lparr>d_size = 0, d_capacity = 2, storage = [0, 0],
                mutex_busy = False, in_alive = True, out_alive = True\<rparr>])"
  proof -
    have two: "replicate 2 (0 :: nat) = [0, 0]" by (simp add: numeral_2_eq_2)
    show ?thesis by (simp add: create_eval two)
  qed
  have ran: "run (\<lambda>x. 0) happy_path
        (\<lparr>i_shared = Some 0, write_pos = 0, i_old_size = 0, i_capacity = 2, i_closed = False\<rparr>,
         \<lparr>o_shared = Some 0, read_pos = 0, o_old_size = 0, o_capacity = 2, o_closed = False\<rparr>,
         [0 \<mapsto> \<lparr>d_size = 0, d_capacity = 2, storage = [0, 0],
                mutex_busy = False, in_alive = True, out_alive = True\<rparr>])
     = Returns
        ([(Put 10, Put_ret True), (Put 20, Put_ret True), (Get, Get_ret (Some 10)),
          (Put 30, Put_ret True), (Get, Get_ret (Some 20)), (Get, Get_ret (Some 30)),
          (Close_in, Void_ret), (Get, Get_ret None)],
         (\<lparr>i_shared = Some 0, write_pos = 1, i_old_size = 2, i_capacity = 2, i_closed = True\<rparr>,
         \<lparr>o_shared = Some 0, read_pos = 1, o_old_size = 0, o_capacity = 2, o_closed = True\<rparr>,
         [0 \<mapsto> \<lparr>d_size = 0, d_capacity = 2, storage = [0, 0],
                mutex_busy = False, in_alive = False, out_alive = False\<rparr>]))"
    by (simp add: happy_path_def step_def in_put_def out_get_def in_close_def deref_def
          set_slot_def take_slot_def obind_def wrapping_inc_def Let_def)
  have spec: "spec_run happy_path (spec_create 2)
     = Returns
        ([(Put 10, Put_ret True), (Put 20, Put_ret True), (Get, Get_ret (Some 10)),
          (Put 30, Put_ret True), (Get, Get_ret (Some 20)), (Get, Get_ret (Some 30)),
          (Close_in, Void_ret), (Get, Get_ret None)],
         \<lparr>queued = [], bound = 2, producer_closed = True, consumer_closed = True\<rparr>)"
    by (simp add: happy_path_def spec_step_def spec_put_def spec_get_def spec_close_in_def
          spec_create_def obind_def)
  have late: "map_outcome fst (spec_run late_get (spec_create 2))
     = Returns [(Put 10, Put_ret True), (Close_in, Void_ret), (Get, Get_ret (Some 10)),
          (Get, Get_ret None)]"
    by (simp add: late_get_def spec_step_def spec_put_def spec_get_def spec_close_in_def
          spec_create_def obind_def)
  have fst': "map_outcome fst (map_outcome (\<lambda>(tr, s). (tr, abstraction 0 s)) x) = map_outcome fst x"
    for x :: "((nat call \<times> nat ret) list \<times> nat channel) outcome"
    by (cases x) auto
  have late': "map_outcome fst (run (\<lambda>x. 0) late_get
        (\<lparr>i_shared = Some 0, write_pos = 0, i_old_size = 0, i_capacity = 2, i_closed = False\<rparr>,
         \<lparr>o_shared = Some 0, read_pos = 0, o_old_size = 0, o_capacity = 2, o_closed = False\<rparr>,
         [0 \<mapsto> \<lparr>d_size = 0, d_capacity = 2, storage = [0, 0],
                mutex_busy = False, in_alive = True, out_alive = True\<rparr>]))
     = Returns [(Put 10, Put_ret True), (Close_in, Void_ret), (Get, Get_ret (Some 10)),
          (Get, Get_ret None)]"
    using channel_fifo [OF create, of "\<lambda>x. 0" late_get] late fst' by (simp flip: fst')
  have pending: "run (\<lambda>x. 0) [Put 10, Close_in]
        (\<lparr>i_shared = Some 0, write_pos = 0, i_old_size = 0, i_capacity = 2, i_closed = False\<rparr>,
         \<lparr>o_shared = Some 0, read_pos = 0, o_old_size = 0, o_capacity = 2, o_closed = False\<rparr>,
         [0 \<mapsto> \<lparr>d_size = 0, d_capacity = 2, storage = [0, 0],
                mutex_busy = False, in_alive = True, out_alive = True\<rparr>])
     = Returns
        ([(Put 10, Put_ret True), (Close_in, Void_ret)],
         \<lparr>i_shared = Some 0, write_pos = 1, i_old_size = 1, i_capacity = 2, i_closed = True\<rparr>,
         \<lparr>o_shared = Some 0, read_pos = 0, o_old_size = 0, o_capacity = 2, o_closed = False\<rparr>,
         [0 \<mapsto> \<lparr>d_size = 1, d_capacity = 2, storage = [10, 0],
                mutex_busy = False, in_alive = False, out_alive = True\<rparr>])
   \<and> buffered 0
        (\<lparr>i_shared = Some 0, write_pos = 1, i_old_size = 1, i_capacity = 2, i_closed = True\<rparr>,
         \<lparr>o_shared = Some 0, read_pos = 0, o_old_size = 0, o_capacity = 2, o_closed = False\<rparr>,
         [0 \<mapsto> \<lparr>d_size = 1, d_capacity = 2, storage = [10, 0],
                mutex_busy = False, in_alive = False, out_alive = True\<rparr>]) = [10 :: nat]
   \<and> out_get (\<lambda>x. 0)
        \<lparr>o_shared = Some 0, read_pos = 0, o_old_size = 0, o_capacity = 2, o_closed = False\<rparr>
        [0 \<mapsto> \<lparr>d_size = 1, d_capacity = 2, storage = [10 :: nat, 0],
               mutex_busy = False, in_alive = False, out_alive = True\<rparr>]
     = Returns
        (Some 10,
         \<lparr>o_shared = Some 0, read_pos = 1, o_old_size = 0, o_capacity = 2, o_closed = False\<rparr>,
         [0 \<mapsto> \<lparr>d_size = 0, d_capacity = 2, storage = [0, 0],
                mutex_busy = False, in_alive = False, out_alive = True\<rparr>])"
    by (simp add: step_def in_put_def out_get_def in_close_def deref_def
          set_slot_def take_slot_def obind_def wrapping_inc_def Let_def buffered_def ring_def)
  show ?thesis
    using channel_fifo [OF create, of "\<lambda>x. 0" happy_path] create ran spec late late' pending
    by (simp add: sent_def received_def)
qed

subsection \<open>The non-blocking gets\<close>

lemma drain_not_blocks: "drain mf n cap pos d v \<noteq> Blocks"
proof (induction n arbitrary: pos d v)
  case 0
  then show ?case by simp
next
  case (Suc n)
  then show ?case
    by (cases "take_slot mf pos d") (auto simp: obind_def take_slot_def split: if_splits)
qed

lemma try_blocks_on_mutex_only:
  "out_try_get mf op h = Blocks \<or> out_try_get_all mf op h = Blocks \<Longrightarrow>
   \<exists>p d. o_shared op = Some p \<and> h p = Some d \<and> mutex_busy d"
proof (cases "o_closed op")
  case True
  assume "out_try_get mf op h = Blocks \<or> out_try_get_all mf op h = Blocks"
  then show ?thesis using True by (simp add: out_try_get_def out_try_get_all_def)
next
  case False
  assume b: "out_try_get mf op h = Blocks \<or> out_try_get_all mf op h = Blocks"
  show ?thesis
  proof (cases "o_shared op")
    case None
    then show ?thesis using b False
      by (simp add: out_try_get_def out_try_get_all_def deref_def obind_def)
  next
    case (Some p)
    show ?thesis
    proof (cases "h p")
      case None
      then show ?thesis using b False Some
        by (simp add: out_try_get_def out_try_get_all_def deref_def obind_def)
    next
      case (Some d)
      have "mutex_busy d"
      proof (rule ccontr)
        assume free: "\<not> mutex_busy d"
        have 1: "out_try_get mf op h \<noteq> Blocks"
          using False \<open>o_shared op = Some p\<close> Some free
          by (simp add: out_try_get_def deref_def obind_def take_slot_def)
        have 2: "out_try_get_all mf op h \<noteq> Blocks"
          using False \<open>o_shared op = Some p\<close> Some free
            drain_not_blocks [of mf "unat (d_size d)" "o_capacity op" "read_pos op" d "[]"]
          by (cases "drain mf (unat (d_size d)) (o_capacity op) (read_pos op) d []")
             (auto simp: out_try_get_all_def deref_def obind_def)
        show False using b 1 2 by blast
      qed
      then show ?thesis using \<open>o_shared op = Some p\<close> Some by blast
    qed
  qed
qed

text \<open>
  C5, as the code has it. On a channel in a consistent state with the mutex free, so
  that the lock is had at once, \<^verbatim>\<open>try_get\<close> and \<^verbatim>\<open>try_get_all\<close> return: they
  never wait on the condition variable. When they find the queue empty and the producer
  alive they return \<^verbatim>\<open>nullopt\<close> and change neither the consumer end nor the queue:
  no element is removed, the size stays, and nothing is closed.
\<close>

theorem try_get_returns_at_once:
  assumes inv: "chan_inv p (ip, op, h)"
  shows "(\<exists>r op' h'. out_try_get mf op h = Returns (r, op', h'))
       \<and> (\<exists>r op' h'. out_try_get_all mf op h = Returns (r, op', h'))
       \<and> (\<not> o_closed op \<and> \<not> i_closed ip \<and> buffered p (ip, op, h) = []
            \<longrightarrow> out_try_get mf op h = Returns (None, op, h)
              \<and> out_try_get_all mf op h = Returns (None, op, h))"
proof -
  from inv obtain d where hp: "h p = Some d" and sh: "o_shared op = Some p"
    and al: "i_closed ip = (\<not> in_alive d)" and mx: "\<not> mutex_busy d"
    by (rule chan_invD)
  have len: "length (buffered p (ip, op, h)) = unat (d_size d)"
    using hp by (simp add: buffered_def)
  have quiet: "out_try_get mf op h = Returns (None, op, h)
       \<and> out_try_get_all mf op h = Returns (None, op, h)"
    if "\<not> o_closed op" "\<not> i_closed ip" "buffered p (ip, op, h) = []"
  proof -
    have "unat (d_size d) = 0" using len that(3) by simp
    then have e: "\<not> 0 < d_size d" by (simp add: word_less_nat_alt)
    have alive: "in_alive d" using al that(2) by simp
    have "out_try_get mf op h = Returns (None, op, h)"
      using out_get_eval(2) [OF inv hp that(1), of mf] e alive by simp
    moreover have "out_try_get_all mf op h = Returns (None, op, h)"
      using that(1) hp sh mx e alive by (simp add: out_try_get_all_def deref_def obind_def)
    ultimately show ?thesis by simp
  qed
  show ?thesis
    using out_try_get_step [OF inv, of mf] out_try_get_all_step [OF inv, of mf] quiet
    by blast
qed

text \<open>
  The theorem on the channel with nothing in it: both calls return \<^verbatim>\<open>nullopt\<close> and
  leave the state as it was.
\<close>

theorem try_get_returns_at_once_witness:
  "chan_inv 0 waiting_channel
   \<and> out_try_get (\<lambda>x. x) (fst (snd waiting_channel)) (snd (snd waiting_channel))
       = Returns (None, fst (snd waiting_channel), snd (snd waiting_channel))
   \<and> out_try_get_all (\<lambda>x. x) (fst (snd waiting_channel)) (snd (snd waiting_channel))
       = Returns (None, fst (snd waiting_channel), snd (snd waiting_channel))"
proof -
  have inv: "chan_inv 0 (fst waiting_channel, fst (snd waiting_channel), snd (snd waiting_channel))"
    by (simp add: chan_inv_def waiting_channel_def)
  have b: "buffered 0 (fst waiting_channel, fst (snd waiting_channel), snd (snd waiting_channel)) = []"
    by (simp add: buffered_def waiting_channel_def ring_def)
  have o: "\<not> o_closed (fst (snd waiting_channel))" "\<not> i_closed (fst waiting_channel)"
    by (simp_all add: waiting_channel_def)
  show ?thesis
    using try_get_returns_at_once [OF inv, of "\<lambda>x. x"] inv b o by simp
qed

text \<open>
  C5 as the specification words it fails: both calls take the lock with the constructor
  that waits for the mutex. With one element in the queue and the mutex held by the
  producer, \<^verbatim>\<open>try_get\<close> and \<^verbatim>\<open>try_get_all\<close> wait for the mutex instead of
  returning a would-block indication.
\<close>

theorem try_get_waits_for_mutex:
  "out_try_get id
     \<lparr>o_shared = Some 0, read_pos = 0, o_old_size = 0, o_capacity = 2, o_closed = False\<rparr>
     [0 \<mapsto> \<lparr>d_size = 1, d_capacity = 2, storage = [10 :: nat, 0], mutex_busy = True,
            in_alive = True, out_alive = True\<rparr>]
     = Blocks
   \<and> out_try_get_all id
     \<lparr>o_shared = Some 0, read_pos = 0, o_old_size = 0, o_capacity = 2, o_closed = False\<rparr>
     [0 \<mapsto> \<lparr>d_size = 1, d_capacity = 2, storage = [10 :: nat, 0], mutex_busy = True,
            in_alive = True, out_alive = True\<rparr>]
     = Blocks"
  by (simp add: out_try_get_def out_try_get_all_def deref_def obind_def)

text \<open>
  C9, as the code has it. For every requested capacity whose maximum with 1 is not
  above the \<^verbatim>\<open>max_size()\<close> of the vector, and for which the allocator has the
  memory, \<^verbatim>\<open>CreateBufferedChannel\<close> returns two ends that point to one queue whose
  capacity is the maximum of the request and 1, with that many slots and none of them
  occupied; both ends are open, and \<^verbatim>\<open>in_alive\<close> and \<^verbatim>\<open>out_alive\<close> are both true
  in the state that is returned. For every other request the constructor of the vector
  throws, and \<^verbatim>\<open>CreateBufferedChannel\<close> returns no pair.
\<close>

theorem create_channel_alive:
  "CreateBufferedChannel dflt p max_size alloc_ok c h
     = (if unat (max c 1) \<le> max_size \<and> alloc_ok
        then Returns
          (\<lparr>i_shared = Some p, write_pos = 0, i_old_size = 0, i_capacity = max c 1,
            i_closed = False\<rparr>,
           \<lparr>o_shared = Some p, read_pos = 0, o_old_size = 0, o_capacity = max c 1,
            o_closed = False\<rparr>,
           h(p \<mapsto> \<lparr>d_size = 0, d_capacity = max c 1,
                     storage = replicate (unat (max c 1)) dflt,
                     mutex_busy = False, in_alive = True, out_alive = True\<rparr>))
        else Throws)"
proof -
  have "(if c = 0 then 1 else c) = max c 1"
  proof (cases "c = 0")
    case True
    then show ?thesis by (simp add: max_def)
  next
    case False
    then have "0 < unat c" by (simp add: unat_gt_0)
    then have "1 \<le> c" by (simp add: word_le_nat_alt)
    then show ?thesis using False by (simp add: max_def)
  qed
  then show ?thesis using create_eval [of dflt p max_size alloc_ok c h] by simp
qed

text \<open>
  The theorem at a request of 0, with the largest \<^verbatim>\<open>max_size()\<close> of a 64-bit
  library and memory to be had: the capacity is 1.
\<close>

theorem create_channel_alive_witness:
  "CreateBufferedChannel (0 :: nat) 7 9223372036854775807 True 0 Map.empty
     = Returns
        (\<lparr>i_shared = Some 7, write_pos = 0, i_old_size = 0, i_capacity = 1, i_closed = False\<rparr>,
         \<lparr>o_shared = Some 7, read_pos = 0, o_old_size = 0, o_capacity = 1, o_closed = False\<rparr>,
         [7 \<mapsto> \<lparr>d_size = 0, d_capacity = 1, storage = [0],
                mutex_busy = False, in_alive = True, out_alive = True\<rparr>])"
  using create_channel_alive [of "0 :: nat" 7 9223372036854775807 True 0 Map.empty] by simp

text \<open>
  C9 as the specification words it, for every requested capacity, fails: a request of
  \<open>2\<^sup>6\<^sup>3\<close> elements is above the \<^verbatim>\<open>max_size()\<close> of every vector of a 64-bit
  library, so with all the memory one could wish for the constructor of the vector
  throws \<^verbatim>\<open>std::length_error\<close> and no pair is returned.
\<close>

theorem create_channel_throws:
  "CreateBufferedChannel (0 :: nat) 7 9223372036854775807 True 9223372036854775808 Map.empty
     = Throws"
  by (simp add: CreateBufferedChannel_def Let_def data_ctor_def vector_ctor_def obind_def)

text \<open>
  C10. A default-constructed end, and what a move constructor or a move assignment
  leaves in its source when the target was such an end, has its closed flag set and a
  null shared pointer. On a consumer end in that state, whatever the heap holds,
  \<^verbatim>\<open>get\<close>, \<^verbatim>\<open>try_get\<close>, \<^verbatim>\<open>get_all\<close> and \<^verbatim>\<open>try_get_all\<close> return
  \<^verbatim>\<open>nullopt\<close>, and \<^verbatim>\<open>close\<close> and the destructor return, all without a change to
  the end or the heap; on a producer end in that state both puts return false, and
  \<^verbatim>\<open>close\<close> and the destructor return, without a change either. None of them is
  undefined, though the pointer is null.
\<close>

theorem closed_null_end_safe:
  assumes "o_closed op" and "o_shared op = None" and "i_closed ip" and "i_shared ip = None"
  shows "out_get mf op h = Returns (None, op, h)
       \<and> out_try_get mf op h = Returns (None, op, h)
       \<and> out_get_all mf op h = Returns (None, op, h)
       \<and> out_try_get_all mf op h = Returns (None, op, h)
       \<and> out_close op h = Returns (op, h)
       \<and> out_dtor op h = Returns h
       \<and> in_put v ip h = Returns (False, ip, h)
       \<and> in_put_rvalue v ip h = Returns (False, ip, h)
       \<and> in_close ip h = Returns (ip, h)
       \<and> in_dtor ip h = Returns h
       \<and> o_closed out_default \<and> o_shared out_default = None
       \<and> i_closed in_default \<and> i_shared in_default = None
       \<and> snd (out_move_ctor op') = out_default \<and> snd (in_move_ctor ip') = in_default
       \<and> snd (out_move_assign op op') = op \<and> snd (in_move_assign ip ip') = ip"
  using assms
  by (simp add: out_get_def out_try_get_def out_get_all_def out_try_get_all_def out_close_def
        out_dtor_def in_put_def in_put_rvalue_def in_close_def in_dtor_def
        out_default_def in_default_def out_move_ctor_def in_move_ctor_def
        out_move_assign_def in_move_assign_def)

text \<open>
  The theorem on the default-constructed ends and a heap that holds nothing, where
  every dereference would be undefined.
\<close>

theorem closed_null_end_safe_witness:
  "o_closed out_default \<and> o_shared out_default = None
   \<and> i_closed in_default \<and> i_shared in_default = None
   \<and> out_get (\<lambda>x. x) out_default (\<lambda>a. None) = Returns (None :: nat option, out_default, \<lambda>a. None)
   \<and> out_try_get (\<lambda>x. x) out_default (\<lambda>a. None)
       = Returns (None :: nat option, out_default, \<lambda>a. None)
   \<and> out_get_all (\<lambda>x. x) out_default (\<lambda>a. None)
       = Returns (None :: nat list option, out_default, \<lambda>a. None)
   \<and> out_try_get_all (\<lambda>x. x) out_default (\<lambda>a. None)
       = Returns (None :: nat list option, out_default, \<lambda>a. None)
   \<and> out_close out_default (\<lambda>a. None :: nat data option) = Returns (out_default, \<lambda>a. None)
   \<and> out_dtor out_default (\<lambda>a. None :: nat data option) = Returns (\<lambda>a. None)
   \<and> in_put (5 :: nat) in_default (\<lambda>a. None) = Returns (False, in_default, \<lambda>a. None)
   \<and> in_put_rvalue (5 :: nat) in_default (\<lambda>a. None) = Returns (False, in_default, \<lambda>a. None)
   \<and> in_close in_default (\<lambda>a. None :: nat data option) = Returns (in_default, \<lambda>a. None)
   \<and> in_dtor in_default (\<lambda>a. None :: nat data option) = Returns (\<lambda>a. None)"
  using closed_null_end_safe [of out_default in_default "\<lambda>x. x" "\<lambda>a. None :: nat data option" 5
      out_default in_default]
  by (simp add: out_default_def in_default_def)

end
